theory Spec2Isabelle
  imports Main "HOL-Library.Sublist" "HOL-Library.AList"
begin

section \<open>Values, exceptions and the Python operations the tap relies on\<close>

text \<open>
  The tap handles parsed JSON throughout: API pages, contact rows, catalog entries and
  the sync state. A Python \<open>dict\<close> keeps its insertion order and assigning to an
  existing key keeps the key's position, so an object is an association list. JSON numbers
  are modelled as integers only (the timestamps of the API are integer milliseconds);
  non-integral numbers are outside the model.
\<close>

datatype json =
    JNull
  | JBool bool
  | JInt int
  | JStr string
  | JArr "json list"
  | JObj "(string \<times> json) list"

text \<open>
  The exceptions that can leave the functions below. \<open>RequestException\<close> stands for
  \<open>requests.exceptions.RequestException\<close> and its subclasses; its argument is the status
  code of \<open>exc.response\<close>, or \<open>None\<close> when the exception carries no response.
\<close>

datatype exn =
    RequestException "nat option"
  | ValueError string
  | KeyError json
  | IndexError
  | TypeError
  | Exception string

definition and_then :: "exn + 'a \<Rightarrow> ('a \<Rightarrow> exn + 'b) \<Rightarrow> exn + 'b" where
  "and_then m f = (case m of Inl e \<Rightarrow> Inl e | Inr x \<Rightarrow> f x)"

text \<open>\<open>sub in s\<close> on two Python strings.\<close>

fun contains_str :: "string \<Rightarrow> string \<Rightarrow> bool" where
  "contains_str sub [] = (sub = [])"
| "contains_str sub (c # cs) = (prefix sub (c # cs) \<or> contains_str sub cs)"

text \<open>\<open>key in obj\<close> for a string \<open>key\<close>, as the tap always has it: key test on a
  dict, membership on a list, substring on a string.\<close>

fun py_contains :: "string \<Rightarrow> json \<Rightarrow> exn + bool" where
  "py_contains k (JObj kvs) = Inr (k \<in> set (map fst kvs))"
| "py_contains k (JArr xs) = Inr (JStr k \<in> set xs)"
| "py_contains k (JStr s) = Inr (contains_str k s)"
| "py_contains k v = Inl TypeError"

text \<open>\<open>xs[i]\<close> with an integer \<open>i\<close>: from the front when \<open>i\<close> is not negative,
  from the back otherwise, and \<open>IndexError\<close> outside the sequence.\<close>

definition py_index :: "'a list \<Rightarrow> int \<Rightarrow> exn + 'a" where
  "py_index xs i =
     (if 0 \<le> i
      then (if nat i < length xs then Inr (xs ! nat i) else Inl IndexError)
      else (if nat (- i) \<le> length xs then Inr (xs ! (length xs - nat (- i)))
            else Inl IndexError))"

text \<open>\<open>obj[key]\<close>.\<close>

fun py_getitem :: "json \<Rightarrow> json \<Rightarrow> exn + json" where
  "py_getitem (JObj kvs) (JStr k) =
     (case map_of kvs k of None \<Rightarrow> Inl (KeyError (JStr k)) | Some v \<Rightarrow> Inr v)"
| "py_getitem (JObj kvs) (JArr k) = Inl TypeError"
| "py_getitem (JObj kvs) (JObj k) = Inl TypeError"
| "py_getitem (JObj kvs) k = Inl (KeyError k)"
| "py_getitem (JArr xs) (JInt i) = py_index xs i"
| "py_getitem (JArr xs) (JBool b) = py_index xs (if b then 1 else 0)"
| "py_getitem (JStr s) (JInt i) = and_then (py_index s i) (\<lambda>c. Inr (JStr [c]))"
| "py_getitem (JStr s) (JBool b) =
     and_then (py_index s (if b then 1 else 0)) (\<lambda>c. Inr (JStr [c]))"
| "py_getitem obj k = Inl TypeError"

text \<open>\<open>obj[key] = v\<close> with a string key; only a dict accepts it.\<close>

fun py_setitem :: "json \<Rightarrow> string \<Rightarrow> json \<Rightarrow> exn + json" where
  "py_setitem (JObj kvs) k v = Inr (JObj (AList.update k v kvs))"
| "py_setitem obj k v = Inl TypeError"

text \<open>The items a \<open>for\<close> loop visits: elements of a list, keys of a dict, characters
  of a string.\<close>

fun py_iter :: "json \<Rightarrow> exn + json list" where
  "py_iter (JArr xs) = Inr xs"
| "py_iter (JObj kvs) = Inr (map (\<lambda>kv. JStr (fst kv)) kvs)"
| "py_iter (JStr s) = Inr (map (\<lambda>c. JStr [c]) s)"
| "py_iter v = Inl TypeError"

fun py_len :: "json \<Rightarrow> exn + nat" where
  "py_len (JArr xs) = Inr (length xs)"
| "py_len (JObj kvs) = Inr (length kvs)"
| "py_len (JStr s) = Inr (length s)"
| "py_len v = Inl TypeError"

section \<open>Constants\<close>

definition PER_PAGE :: nat where
  "PER_PAGE = 100"

definition BASE_URL :: string where
  "BASE_URL = ''https://api2.autopilothq.com/v1''"

text \<open>An endpoint template is kept in the pieces \<open>str.format\<close> sees: literal text and
  replacement fields.\<close>

datatype piece = Lit string | Field string

definition ENDPOINTS :: "(string \<times> piece list) list" where
  "ENDPOINTS =
     [(''contacts'', [Lit ''/contacts'']),
      (''custom_fields'', [Lit ''/contacts/custom_fields'']),
      (''lists'', [Lit ''/lists'']),
      (''smart_segments'', [Lit ''/smart_segments'']),
      (''smart_segments_contacts'',
         [Lit ''/smart_segments/'', Field ''segment_id'', Lit ''/contacts''])]"

section \<open>The environment: configuration, HTTP transport and the Singer library\<close>

record config =
  api_key :: json
  start_date :: json
  user_agent :: json

record http_request =
  url :: string
  headers :: "(string \<times> json) list"

text \<open>A response as far as the tap reads it: the status code and the body, \<open>None\<close>
  when the body is not JSON (then \<open>resp.json()\<close> raises).\<close>

datatype response = Response nat "json option"

text \<open>
  Everything the module calls but does not define is a field of the environment:
  \<^item> \<open>send\<close> is \<open>SESSION.send\<close>: from the state \<open>'s\<close> of the outside world and a
    prepared request it gives a response or raises, and the world moves on;
  \<^item> \<open>transform_datetime\<close> is Singer's \<open>_transform_datetime\<close> called with
    \<open>UNIX_MILLISECONDS_INTEGER_DATETIME_PARSING\<close>;
  \<^item> \<open>strptime_with_tz\<close> and \<open>strftime\<close> are Singer's \<open>utils\<close> functions, between
    strings and the timestamps \<open>'t\<close>, which Python compares with \<open>>=\<close> and \<open>>\<close>;
    both may raise (\<open>strftime\<close> refuses a timestamp that is not in UTC);
  \<^item> \<open>py_str\<close> is the built-in \<open>str\<close>, as \<open>str.format\<close> applies it;
  \<^item> \<open>CONFIG\<close> is the module's global configuration as \<open>main\<close> fills it.
\<close>

record ('s, 't) env =
  send :: "'s \<Rightarrow> http_request \<Rightarrow> (exn + response) \<times> 's"
  transform_datetime :: "json \<Rightarrow> exn + json"
  strptime_with_tz :: "json \<Rightarrow> exn + 't"
  strftime :: "'t \<Rightarrow> exn + string"
  py_str :: "json \<Rightarrow> string"
  CONFIG :: config

section \<open>URL helpers\<close>

definition client_error :: "nat option \<Rightarrow> bool" where
  "client_error resp =
     (case resp of
        None \<Rightarrow> False
      | Some status_code \<Rightarrow> status_code \<noteq> 408 \<and> 400 \<le> status_code \<and> status_code < 500)"

text \<open>
  \<open>parse_source_from_url\<close> matches \<open>BASE_URL + r'.*/(\w+)'\<close> at the start of the URL.
  In the pattern the dots of \<open>BASE_URL\<close> match any character but a newline; the greedy
  \<open>.*\<close> stays on the first line and gives back characters until a \<open>/\<close> followed by a
  word character is found, so the match ends at the last such \<open>/\<close>; \<open>\w+\<close> then takes
  the longest run of word characters. Word characters are the ASCII ones here.
\<close>

definition is_word_char :: "char \<Rightarrow> bool" where
  "is_word_char c =
     (let n = (of_char c :: nat)
      in (48 \<le> n \<and> n \<le> 57) \<or> (65 \<le> n \<and> n \<le> 90) \<or> (97 \<le> n \<and> n \<le> 122) \<or> n = 95)"

fun match_literal :: "string \<Rightarrow> string \<Rightarrow> string option" where
  "match_literal [] s = Some s"
| "match_literal (p # ps) [] = None"
| "match_literal (p # ps) (c # cs) =
     (if (if p = CHR ''.'' then c \<noteq> CHR 0x0A else c = p) then match_literal ps cs else None)"

fun last_slash_word :: "string \<Rightarrow> (string \<times> string) option" where
  "last_slash_word [] = None"
| "last_slash_word (c # cs) =
     (case last_slash_word cs of
        Some (pre, g) \<Rightarrow> Some (c # pre, g)
      | None \<Rightarrow>
          (case cs of
             [] \<Rightarrow> None
           | d # ds \<Rightarrow>
               if c = CHR ''/'' \<and> is_word_char d
               then Some ([c], takeWhile is_word_char cs) else None))"

definition parse_source_from_url :: "string \<Rightarrow> exn + string" where
  "parse_source_from_url u =
     (case match_literal BASE_URL u of
        None \<Rightarrow> Inl (ValueError (''Can't determine stream from URL '' @ u))
      | Some rest \<Rightarrow>
          (case last_slash_word (takeWhile (\<lambda>c. c \<noteq> CHR 0x0A) rest) of
             None \<Rightarrow> Inl (ValueError (''Can't determine stream from URL '' @ u))
           | Some (pre, group1) \<Rightarrow>
               (let group0 = take (length BASE_URL) u @ pre @ group1
                in if group1 = ''contacts'' \<and> contains_str ''segment'' group0
                   then Inr ''smart_segments_contacts''
                   else Inr group1)))"

definition parse_key_from_source :: "string \<Rightarrow> string" where
  "parse_key_from_source source =
     (if contains_str ''contact'' source then ''contacts''
      else if contains_str ''smart_segments'' source then ''segments''
      else source)"

text \<open>\<open>ENDPOINTS[endpoint].format(**kwargs)\<close>: a replacement field takes the keyword
  argument of its name, converted with \<open>str\<close>; a missing one raises \<open>KeyError\<close>.\<close>

fun format_pieces :: "(json \<Rightarrow> string) \<Rightarrow> piece list \<Rightarrow> (string \<times> json) list \<Rightarrow> exn + string" where
  "format_pieces to_str [] kwargs = Inr []"
| "format_pieces to_str (Lit s # ps) kwargs =
     and_then (format_pieces to_str ps kwargs) (\<lambda>r. Inr (s @ r))"
| "format_pieces to_str (Field k # ps) kwargs =
     (case map_of kwargs k of
        None \<Rightarrow> Inl (KeyError (JStr k))
      | Some v \<Rightarrow> and_then (format_pieces to_str ps kwargs) (\<lambda>r. Inr (to_str v @ r)))"

definition get_url :: "('s, 't) env \<Rightarrow> string \<Rightarrow> (string \<times> json) list \<Rightarrow> exn + string" where
  "get_url env endpoint kwargs =
     (case map_of ENDPOINTS endpoint of
        None \<Rightarrow> Inl (ValueError (''Invalid endpoint '' @ endpoint))
      | Some template \<Rightarrow>
          and_then (format_pieces (py_str env) template kwargs) (\<lambda>path. Inr (BASE_URL @ path)))"

section \<open>The contact transform\<close>

definition boolean_props :: "string list" where
  "boolean_props = [''anywhere_page_visits'', ''anywhere_form_submits'', ''anywhere_utm'']"

definition timestamp_props :: "string list" where
  "timestamp_props =
     [''mail_received'', ''mail_opened'', ''mail_clicked'', ''mail_bounced'',
      ''mail_complained'', ''mail_unsubscribed'', ''mail_hardbounced'']"

text \<open>The two loops of \<open>transform_contact\<close> differ only in the entry they build for a
  row of the sub-object, so one pair of functions models both: \<open>format_rows\<close> is the
  inner loop filling \<open>formatted_array\<close>, \<open>transform_props\<close> the loop over the
  property names.\<close>

definition boolean_entry :: "json \<Rightarrow> json \<Rightarrow> exn + json" where
  "boolean_entry row v = Inr (JObj [(''url'', row), (''value'', v)])"

definition timestamp_entry :: "('s, 't) env \<Rightarrow> json \<Rightarrow> json \<Rightarrow> exn + json" where
  "timestamp_entry env row v =
     and_then (transform_datetime env v) (\<lambda>ts. Inr (JObj [(''id'', row), (''timestamp'', ts)]))"

fun format_rows :: "(json \<Rightarrow> json \<Rightarrow> exn + json) \<Rightarrow> json \<Rightarrow> json list \<Rightarrow> exn + json list" where
  "format_rows entry sub [] = Inr []"
| "format_rows entry sub (row # rows) =
     and_then (py_getitem sub row) (\<lambda>v.
     and_then (entry row v) (\<lambda>e.
     and_then (format_rows entry sub rows) (\<lambda>rest. Inr (e # rest))))"

fun transform_props :: "(json \<Rightarrow> json \<Rightarrow> exn + json) \<Rightarrow> string list \<Rightarrow> json \<Rightarrow> exn + json" where
  "transform_props entry [] contact = Inr contact"
| "transform_props entry (prop # props) contact =
     and_then (py_contains prop contact) (\<lambda>present.
       if present then
         and_then (py_getitem contact (JStr prop)) (\<lambda>sub.
         and_then (py_iter sub) (\<lambda>rows.
         and_then (format_rows entry sub rows) (\<lambda>formatted_array.
         and_then (py_setitem contact prop (JArr formatted_array)) (\<lambda>contact'.
           transform_props entry props contact'))))
       else transform_props entry props contact)"

definition transform_contact :: "('s, 't) env \<Rightarrow> json \<Rightarrow> exn + json" where
  "transform_contact env contact =
     and_then (transform_props boolean_entry boolean_props contact)
       (transform_props (timestamp_entry env) timestamp_props)"

section \<open>Program state: the outside world, the Singer messages and the sync state\<close>

text \<open>
  Modelled from the spec: the persisted state has the shape
  \<open>{"bookmarks": {stream: {key: value}}, "currently_syncing": stream-or-null}\<close>; the
  functions of \<open>singer\<close> that read and write it are library code. A bookmark is looked
  up by stream and key; \<open>currently_syncing\<close> is \<open>None\<close> for a missing or null marker.
\<close>

record sync_state =
  bookmarks :: "string \<times> string \<rightharpoonup> json"
  currently_syncing :: "string option"

definition get_bookmark :: "sync_state \<Rightarrow> string \<Rightarrow> string \<Rightarrow> json" where
  "get_bookmark STATE tap_stream_id key =
     (case bookmarks STATE (tap_stream_id, key) of None \<Rightarrow> JNull | Some v \<Rightarrow> v)"

definition write_bookmark :: "sync_state \<Rightarrow> string \<Rightarrow> string \<Rightarrow> json \<Rightarrow> sync_state" where
  "write_bookmark STATE tap_stream_id key val =
     STATE\<lparr>bookmarks := (bookmarks STATE)((tap_stream_id, key) \<mapsto> val)\<rparr>"

definition set_currently_syncing :: "sync_state \<Rightarrow> string option \<Rightarrow> sync_state" where
  "set_currently_syncing STATE tap_stream_id = STATE\<lparr>currently_syncing := tap_stream_id\<rparr>"

text \<open>The messages \<open>singer.write_schema\<close>, \<open>write_record\<close> and \<open>write_state\<close> put on
  standard output; a state message holds the state as it is when written.\<close>

datatype message =
    SchemaMsg string json json
  | RecordMsg string json
  | StateMsg sync_state

text \<open>
  What the program changes outside its own variables: the state \<open>net\<close> of whatever
  answers the HTTP requests, the nominal delays \<open>sleeps\<close> the retry decorator waited
  (in seconds, before jitter), and the messages \<open>out\<close> written so far. Log lines and
  metrics are not modelled.
\<close>

record 's world =
  net :: 's
  sleeps :: "nat list"
  out :: "message list"

definition emit :: "message \<Rightarrow> 's world \<Rightarrow> 's world" where
  "emit m w = w\<lparr>out := out w @ [m]\<rparr>"

text \<open>
  Modelled from the spec: a catalog entry has a stream identifier, a schema, a
  key-property set and a selection flag. The last two are what \<open>metadata.get\<close> returns
  for \<open>table-key-properties\<close> and \<open>selected\<close> at the root breadcrumb (\<open>JNull\<close> for
  Python's \<open>None\<close>); \<open>singer.metadata\<close> itself is library code.
\<close>

record stream =
  tap_stream_id :: string
  schema :: json
  md_table_key_properties :: json
  md_selected :: json

definition get_start :: "('s, 't) env \<Rightarrow> sync_state \<Rightarrow> string \<Rightarrow> string \<Rightarrow> json" where
  "get_start env STATE stream_id bookmark_key =
     (let current_bookmark = get_bookmark STATE stream_id bookmark_key
      in if current_bookmark = JNull then start_date (CONFIG env) else current_bookmark)"

section \<open>The HTTP fetcher\<close>

definition raise_for_status :: "response \<Rightarrow> exn + response" where
  "raise_for_status resp =
     (case resp of Response status_code body \<Rightarrow>
        if 400 \<le> status_code \<and> status_code < 600
        then Inl (RequestException (Some status_code)) else Inr resp)"

text \<open>The body of \<open>request\<close>, one attempt: build the headers, append the bookmark to the
  URL, derive the metrics tag (which raises on a URL it cannot parse), send, check the
  status. Preparing the request object is taken to succeed.\<close>

definition request_once ::
  "('s, 't) env \<Rightarrow> string \<Rightarrow> (string \<rightharpoonup> json) \<Rightarrow> 's world \<Rightarrow> (exn + response) \<times> 's world" where
  "request_once env u params w =
     (let hs = [(''autopilotapikey'', api_key (CONFIG env))] @
               (if user_agent (CONFIG env) \<noteq> JNull
                then [(''user-agent'', user_agent (CONFIG env))] else [])
      in case (case params ''bookmark'' of
                 None \<Rightarrow> Inr u
               | Some (JStr b) \<Rightarrow> Inr (u @ ''/'' @ b)
               | Some other \<Rightarrow> Inl TypeError) of
           Inl e \<Rightarrow> (Inl e, w)
         | Inr u' \<Rightarrow>
             (case parse_source_from_url u' of
                Inl e \<Rightarrow> (Inl e, w)
              | Inr tag \<Rightarrow>
                  (case send env (net w) \<lparr>url = u', headers = hs\<rparr> of
                     (Inl e, s') \<Rightarrow> (Inl e, w\<lparr>net := s'\<rparr>)
                   | (Inr resp, s') \<Rightarrow> (raise_for_status resp, w\<lparr>net := s'\<rparr>))))"

text \<open>
  Modelled from the spec: the decorator \<open>backoff.on_exception(backoff.expo, ...)\<close> is
  library code; the fetcher "retries up to 5 attempts with exponential backoff (base
  factor 2) on any request exception except one classified as a non-retryable client
  error". The decorated function is called; when it raises the given exception class the
  decorator re-raises if \<open>giveup\<close> holds of the exception or the attempt was the
  \<open>max_tries\<close>-th, and otherwise sleeps and calls again. \<open>tries\<close> is the number of
  the running attempt, from 1. The delay before retry number \<open>n\<close> is
  \<open>factor * 2 ^ (n - 1)\<close> seconds, before the library's random jitter. The rate limiter
  \<open>utils.ratelimit(20, 1)\<close> only delays calls and is not modelled.
\<close>

function on_exception ::
  "nat \<Rightarrow> (nat option \<Rightarrow> bool) \<Rightarrow> nat \<Rightarrow> ('s world \<Rightarrow> (exn + 'a) \<times> 's world) \<Rightarrow>
   nat \<Rightarrow> 's world \<Rightarrow> (exn + 'a) \<times> 's world" where
  "on_exception max_tries giveup factor target tries w =
     (case target w of
        (Inl (RequestException r), w1) \<Rightarrow>
          if giveup r \<or> max_tries \<le> tries then (Inl (RequestException r), w1)
          else on_exception max_tries giveup factor target (Suc tries)
                 (w1\<lparr>sleeps := sleeps w1 @ [factor * 2 ^ (tries - 1)]\<rparr>)
      | other \<Rightarrow> other)"
  by pat_completeness auto
termination
  by (relation "measure (\<lambda>(max_tries, giveup, factor, target, tries, w). max_tries - tries)")
     auto

definition request ::
  "('s, 't) env \<Rightarrow> string \<Rightarrow> (string \<rightharpoonup> json) \<Rightarrow> 's world \<Rightarrow> (exn + response) \<times> 's world" where
  "request env u params = on_exception 5 client_error 2 (request_once env u params) 1"

definition response_json :: "response \<Rightarrow> exn + json" where
  "response_json resp =
     (case resp of Response status_code body \<Rightarrow>
        (case body of None \<Rightarrow> Inl (ValueError ''response body is not JSON'') | Some data \<Rightarrow> Inr data))"

section \<open>The pagination engine\<close>

text \<open>
  \<open>gen_request\<close> is a generator; every caller consumes it in a \<open>for\<close> loop. The
  loop body is passed in as \<open>body\<close>: it takes the row, the caller's loop variables and
  the world, and may raise or (for a nested generator) not return. Rows are consumed one
  by one between the fetches, as the generator yields them.
\<close>

fun for_rows ::
  "(json \<Rightarrow> 'a \<Rightarrow> 'w \<Rightarrow> ((exn + 'a) \<times> 'w) option) \<Rightarrow> json list \<Rightarrow> 'a \<Rightarrow> 'w \<Rightarrow>
   ((exn + 'a) \<times> 'w) option" where
  "for_rows body [] acc w = Some (Inr acc, w)"
| "for_rows body (row # rows) acc w =
     (case body row acc w of
        None \<Rightarrow> None
      | Some (Inl e, w1) \<Rightarrow> Some (Inl e, w1)
      | Some (Inr acc1, w1) \<Rightarrow> for_rows body rows acc1 w1)"

text \<open>Lines 198 to 203: the continuation token of a contacts page.\<close>

definition update_params ::
  "string \<Rightarrow> json \<Rightarrow> (string \<rightharpoonup> json) \<Rightarrow> exn + (string \<rightharpoonup> json)" where
  "update_params source data params =
     (if contains_str ''contact'' source then
        and_then (py_contains ''bookmark'' data) (\<lambda>has_bookmark.
          if has_bookmark then
            and_then (py_getitem data (JStr ''bookmark'')) (\<lambda>b.
              Inr (params(''bookmark'' \<mapsto> b)))
          else Inr Map.empty)
      else Inr params)"

text \<open>One turn of the \<open>while True\<close> loop up to the first \<open>yield\<close>: the page, the
  parameters for the next request and the rows to yield.\<close>

definition fetch_page ::
  "('s, 't) env \<Rightarrow> string \<Rightarrow> string \<Rightarrow> string \<Rightarrow> (string \<rightharpoonup> json) \<Rightarrow> 's world \<Rightarrow>
   (exn + (json \<times> (string \<rightharpoonup> json) \<times> json list)) \<times> 's world" where
  "fetch_page env endpoint source source_key params w =
     (case request env endpoint params w of
        (Inl e, w1) \<Rightarrow> (Inl e, w1)
      | (Inr resp, w1) \<Rightarrow>
          (and_then (response_json resp) (\<lambda>data.
           and_then (update_params source data params) (\<lambda>params1.
           and_then (py_getitem data (JStr source_key)) (\<lambda>page.
           and_then (py_iter page) (\<lambda>rows. Inr (data, params1, rows))))), w1))"

partial_function (option) gen_request_loop ::
  "('s, 't) env \<Rightarrow> string \<Rightarrow> string \<Rightarrow> string \<Rightarrow>
   (json \<Rightarrow> 'a \<Rightarrow> 's world \<Rightarrow> ((exn + 'a) \<times> 's world) option) \<Rightarrow>
   (string \<rightharpoonup> json) \<Rightarrow> 'a \<Rightarrow> 's world \<Rightarrow> ((exn + 'a) \<times> 's world) option" where
  "gen_request_loop env endpoint source source_key body params acc w =
     (case fetch_page env endpoint source source_key params w of
        (Inl e, w1) \<Rightarrow> Some (Inl e, w1)
      | (Inr (data, params1, rows), w1) \<Rightarrow>
          (case for_rows body rows acc w1 of
             None \<Rightarrow> None
           | Some (Inl e, w2) \<Rightarrow> Some (Inl e, w2)
           | Some (Inr acc2, w2) \<Rightarrow>
               (case and_then (py_getitem data (JStr source_key)) py_len of
                  Inl e \<Rightarrow> Some (Inl e, w2)
                | Inr n \<Rightarrow>
                    if n < PER_PAGE then Some (Inr acc2, w2)
                    else gen_request_loop env endpoint source source_key body params1 acc2 w2)))"

definition gen_request ::
  "('s, 't) env \<Rightarrow> string \<Rightarrow> (string \<rightharpoonup> json) \<Rightarrow>
   (json \<Rightarrow> 'a \<Rightarrow> 's world \<Rightarrow> ((exn + 'a) \<times> 's world) option) \<Rightarrow>
   'a \<Rightarrow> 's world \<Rightarrow> ((exn + 'a) \<times> 's world) option" where
  "gen_request env endpoint params body acc w =
     (case parse_source_from_url endpoint of
        Inl e \<Rightarrow> Some (Inl e, w)
      | Inr source \<Rightarrow>
          gen_request_loop env endpoint source (parse_key_from_source source) body params acc w)"

section \<open>The stream syncs\<close>

text \<open>
  The body of the loop in \<open>sync_contacts\<close>; the loop variable carried from row to row is
  \<open>max_updated_at\<close>. \<open>updated_at\<close> is \<open>None\<close> or a timestamp, and a timestamp is
  never false in Python, so \<open>not updated_at\<close> holds exactly of \<open>None\<close>.
\<close>

definition contacts_row ::
  "('s, 't::ord) env \<Rightarrow> string \<Rightarrow> 't \<Rightarrow> json \<Rightarrow> 't \<Rightarrow> 's world \<Rightarrow> ((exn + 't) \<times> 's world) option" where
  "contacts_row env stream_id start row max_updated_at w =
     (case and_then (py_contains ''updated_at'' row) (\<lambda>present.
             if present then
               and_then (py_getitem row (JStr ''updated_at'')) (\<lambda>v.
               and_then (transform_datetime env v) (\<lambda>s.
               and_then (strptime_with_tz env s) (\<lambda>t. Inr (Some t))))
             else Inr None) of
        Inl e \<Rightarrow> Some (Inl e, w)
      | Inr updated_at \<Rightarrow>
          (case (if (case updated_at of None \<Rightarrow> True | Some t \<Rightarrow> t \<ge> start)
                 then and_then (transform_contact env row) (\<lambda>r. Inr (emit (RecordMsg stream_id r) w))
                 else Inr w) of
             Inl e \<Rightarrow> Some (Inl e, w)
           | Inr w1 \<Rightarrow>
               Some (Inr (case updated_at of
                            None \<Rightarrow> max_updated_at
                          | Some t \<Rightarrow> if t > max_updated_at then t else max_updated_at), w1)))"

text \<open>
  \<open>sync_contacts\<close>: the schema message, the watermark \<open>start\<close>, the log line (it
  formats \<open>start\<close>, which may raise), the URL, the loop over the generator, and the
  bookmark written from \<open>max_updated_at\<close>.
\<close>

definition sync_contacts ::
  "('s, 't::ord) env \<Rightarrow> sync_state \<Rightarrow> stream \<Rightarrow> 's world \<Rightarrow> ((exn + sync_state) \<times> 's world) option" where
  "sync_contacts env STATE strm w =
     (let stream_id = tap_stream_id strm;
          w0 = emit (SchemaMsg stream_id (schema strm) (md_table_key_properties strm)) w
      in case and_then (strptime_with_tz env (get_start env STATE stream_id ''updated_at''))
                (\<lambda>start. and_then (strftime env start)
                (\<lambda>logged. and_then (get_url env stream_id [])
                (\<lambda>endpoint. Inr (start, endpoint)))) of
           Inl e \<Rightarrow> Some (Inl e, w0)
         | Inr (start, endpoint) \<Rightarrow>
             (case gen_request env endpoint Map.empty
                     (contacts_row env stream_id start) start w0 of
                None \<Rightarrow> None
              | Some (Inl e, w1) \<Rightarrow> Some (Inl e, w1)
              | Some (Inr max_updated_at, w1) \<Rightarrow>
                  (case strftime env max_updated_at of
                     Inl e \<Rightarrow> Some (Inl e, w1)
                   | Inr bookmark \<Rightarrow>
                       (let STATE' = write_bookmark STATE stream_id ''updated_at'' (JStr bookmark)
                        in Some (Inr STATE', emit (StateMsg STATE') w1)))))"

text \<open>The loop body of the full-refresh syncs: write the row as it came.\<close>

definition write_row :: "string \<Rightarrow> json \<Rightarrow> unit \<Rightarrow> 's world \<Rightarrow> ((exn + unit) \<times> 's world) option" where
  "write_row stream_name row acc w = Some (Inr (), emit (RecordMsg stream_name row) w)"

definition sync_lists ::
  "('s, 't) env \<Rightarrow> stream \<Rightarrow> 's world \<Rightarrow> ((exn + unit) \<times> 's world) option" where
  "sync_lists env strm w =
     (let w0 = emit (SchemaMsg ''lists'' (schema strm) (JArr [JStr ''list_id''])) w
      in case get_url env ''lists'' [] of
           Inl e \<Rightarrow> Some (Inl e, w0)
         | Inr endpoint \<Rightarrow> gen_request env endpoint Map.empty (write_row ''lists'') () w0)"

definition sync_smart_segments ::
  "('s, 't) env \<Rightarrow> stream \<Rightarrow> 's world \<Rightarrow> ((exn + unit) \<times> 's world) option" where
  "sync_smart_segments env strm w =
     (let w0 = emit (SchemaMsg ''smart_segments'' (schema strm) (JArr [JStr ''segment_id''])) w
      in case get_url env ''smart_segments'' [] of
           Inl e \<Rightarrow> Some (Inl e, w0)
         | Inr endpoint \<Rightarrow>
             gen_request env endpoint Map.empty (write_row ''smart_segments'') () w0)"

text \<open>The inner and the outer loop body of \<open>sync_smart_segment_contacts\<close>.\<close>

definition segment_contact_row ::
  "json \<Rightarrow> json \<Rightarrow> unit \<Rightarrow> 's world \<Rightarrow> ((exn + unit) \<times> 's world) option" where
  "segment_contact_row row subrow acc w =
     (case and_then (py_getitem row (JStr ''segment_id'')) (\<lambda>segment_id.
           and_then (py_getitem subrow (JStr ''contact_id'')) (\<lambda>contact_id.
             Inr (JObj [(''segment_id'', segment_id), (''contact_id'', contact_id)]))) of
        Inl e \<Rightarrow> Some (Inl e, w)
      | Inr r \<Rightarrow> Some (Inr (), emit (RecordMsg ''smart_segments_contacts'' r) w))"

definition segment_row ::
  "('s, 't) env \<Rightarrow> json \<Rightarrow> unit \<Rightarrow> 's world \<Rightarrow> ((exn + unit) \<times> 's world) option" where
  "segment_row env row acc w =
     (case and_then (py_getitem row (JStr ''segment_id'')) (\<lambda>segment_id.
             get_url env ''smart_segments_contacts'' [(''segment_id'', segment_id)]) of
        Inl e \<Rightarrow> Some (Inl e, w)
      | Inr subrow_url \<Rightarrow>
          gen_request env subrow_url Map.empty (segment_contact_row row) () w)"

definition sync_smart_segment_contacts ::
  "('s, 't) env \<Rightarrow> stream \<Rightarrow> 's world \<Rightarrow> ((exn + unit) \<times> 's world) option" where
  "sync_smart_segment_contacts env strm w =
     (let w0 = emit (SchemaMsg ''smart_segments_contacts'' (schema strm)
                       (JArr [JStr ''segment_id'', JStr ''contact_id''])) w
      in case get_url env ''smart_segments'' [] of
           Inl e \<Rightarrow> Some (Inl e, w0)
         | Inr endpoint \<Rightarrow> gen_request env endpoint Map.empty (segment_row env) () w0)"

section \<open>The stream dispatcher\<close>

text \<open>\<open>if current_stream\<close> holds of a non-empty string; \<open>format\<close> prints \<open>None\<close> as
  \<open>None\<close>.\<close>

definition get_streams_to_sync :: "stream list \<Rightarrow> sync_state \<Rightarrow> exn + stream list" where
  "get_streams_to_sync streams state =
     (let current_stream = currently_syncing state;
          result = (case current_stream of
                      None \<Rightarrow> streams
                    | Some c \<Rightarrow>
                        if c \<noteq> [] then dropWhile (\<lambda>x. tap_stream_id x \<noteq> c) streams
                        else streams)
      in if result = []
         then Inl (Exception (''Unknown stream '' @
                     (case current_stream of None \<Rightarrow> ''None'' | Some c \<Rightarrow> c) @ '' in state''))
         else Inr result)"

text \<open>\<open>metadata.get(mdata, (), 'selected') == True\<close>: Python's \<open>1 == True\<close> holds.\<close>

definition get_selected_streams :: "stream list \<Rightarrow> stream list" where
  "get_selected_streams remaining_streams =
     filter (\<lambda>strm. md_selected strm = JBool True \<or> md_selected strm = JInt 1) remaining_streams"

text \<open>The syncs that return nothing leave \<open>return_val\<close> as it was set from \<open>state\<close>.\<close>

definition returning ::
  "'b \<Rightarrow> ((exn + unit) \<times> 'w) option \<Rightarrow> ((exn + 'b) \<times> 'w) option" where
  "returning return_val r =
     (case r of
        None \<Rightarrow> None
      | Some (Inl e, w1) \<Rightarrow> Some (Inl e, w1)
      | Some (Inr u, w1) \<Rightarrow> Some (Inr return_val, w1))"

definition sync ::
  "('s, 't::ord) env \<Rightarrow> sync_state \<Rightarrow> stream \<Rightarrow> 's world \<Rightarrow> ((exn + sync_state) \<times> 's world) option" where
  "sync env state strm w =
     (if tap_stream_id strm = ''contacts'' then sync_contacts env state strm w
      else if tap_stream_id strm = ''lists'' then returning state (sync_lists env strm w)
      else if tap_stream_id strm = ''smart_segments''
        then returning state (sync_smart_segments env strm w)
      else if tap_stream_id strm = ''smart_segments_contacts''
        then returning state (sync_smart_segment_contacts env strm w)
      else Some (Inr state, w))"

text \<open>The \<open>for stream in selected_streams\<close> loop of \<open>do_sync\<close>.\<close>

fun sync_streams ::
  "('s, 't::ord) env \<Rightarrow> stream list \<Rightarrow> sync_state \<Rightarrow> 's world \<Rightarrow>
   ((exn + sync_state) \<times> 's world) option" where
  "sync_streams env [] STATE w = Some (Inr STATE, w)"
| "sync_streams env (strm # rest) STATE w =
     (let STATE1 = set_currently_syncing STATE (Some (tap_stream_id strm));
          w1 = emit (StateMsg STATE1) w
      in case sync env STATE1 strm w1 of
           None \<Rightarrow> None
         | Some (Inl e, w2) \<Rightarrow> Some (Inl e, w2)
         | Some (Inr STATE2, w2) \<Rightarrow> sync_streams env rest STATE2 w2)"

definition do_sync ::
  "('s, 't::ord) env \<Rightarrow> sync_state \<Rightarrow> stream list \<Rightarrow> 's world \<Rightarrow> ((exn + unit) \<times> 's world) option" where
  "do_sync env STATE catalog_streams w =
     (case get_streams_to_sync catalog_streams STATE of
        Inl e \<Rightarrow> Some (Inl e, w)
      | Inr remaining_streams \<Rightarrow>
          (let selected_streams = get_selected_streams remaining_streams
           in if length selected_streams < 1 then Some (Inr (), w)
              else (case sync_streams env selected_streams STATE w of
                      None \<Rightarrow> None
                    | Some (Inl e, w1) \<Rightarrow> Some (Inl e, w1)
                    | Some (Inr STATE1, w1) \<Rightarrow>
                        Some (Inr (), emit (StateMsg (set_currently_syncing STATE1 None)) w1))))"

section \<open>Environments to run the definitions in\<close>

text \<open>
  A scripted transport: the world outside is the list of answers still to come, each a
  response or an exception of \<open>SESSION.send\<close>; every request takes the next one, whatever
  it asks for. Once the script is used up the connection fails.
\<close>

definition script_send ::
  "(exn + response) list \<Rightarrow> http_request \<Rightarrow> (exn + response) \<times> (exn + response) list" where
  "script_send rs req =
     (case rs of [] \<Rightarrow> (Inl (RequestException None), []) | r # rest \<Rightarrow> (r, rest))"

definition ok_page :: "json \<Rightarrow> exn + response" where
  "ok_page data = Inr (Response 200 (Some data))"

text \<open>A transport that answers every request with the same page.\<close>

definition same_page_send :: "json \<Rightarrow> unit \<Rightarrow> http_request \<Rightarrow> (exn + response) \<times> unit" where
  "same_page_send data s req = (ok_page data, s)"

text \<open>
  A stand-in for the Singer library with integer timestamps (Unix milliseconds), in which
  the string form of a timestamp is its decimal numeral. It serves to evaluate the
  definitions on concrete inputs; no theorem about the tap depends on it.
\<close>

function decimal :: "nat \<Rightarrow> string" where
  "decimal n =
     (if n < 10 then [''0123456789'' ! n] else decimal (n div 10) @ [''0123456789'' ! (n mod 10)])"
  by pat_completeness auto
termination
  by (relation "measure id") auto

definition show_int :: "int \<Rightarrow> string" where
  "show_int i = (if i < 0 then ''-'' @ decimal (nat (- i)) else decimal (nat i))"

fun read_nat :: "string \<Rightarrow> nat \<Rightarrow> nat option" where
  "read_nat [] acc = Some acc"
| "read_nat (c # cs) acc =
     (let d = (of_char c :: nat)
      in if 48 \<le> d \<and> d \<le> 57 then read_nat cs (10 * acc + (d - 48)) else None)"

definition read_int :: "string \<Rightarrow> int option" where
  "read_int s =
     (case s of
        [] \<Rightarrow> None
      | c # cs \<Rightarrow>
          if c = CHR ''-'' then (if cs = [] then None else map_option (\<lambda>n. - int n) (read_nat cs 0))
          else map_option int (read_nat s 0))"

definition demo_transform_datetime :: "json \<Rightarrow> exn + json" where
  "demo_transform_datetime v = (case v of JInt n \<Rightarrow> Inr (JStr (show_int n)) | _ \<Rightarrow> Inr JNull)"

definition demo_strptime :: "json \<Rightarrow> exn + int" where
  "demo_strptime v =
     (case v of
        JStr s \<Rightarrow> (case read_int s of None \<Rightarrow> Inl (ValueError s) | Some t \<Rightarrow> Inr t)
      | _ \<Rightarrow> Inl TypeError)"

definition demo_str :: "json \<Rightarrow> string" where
  "demo_str v = (case v of JStr s \<Rightarrow> s | JInt n \<Rightarrow> show_int n | _ \<Rightarrow> ''?'')"

definition demo_config :: config where
  "demo_config = \<lparr>api_key = JStr ''key'', start_date = JStr ''10'', user_agent = JNull\<rparr>"

definition demo_env :: "((exn + response) list, int) env" where
  "demo_env =
     \<lparr>send = script_send, transform_datetime = demo_transform_datetime,
      strptime_with_tz = demo_strptime, strftime = (\<lambda>t. Inr (show_int t)), py_str = demo_str,
      CONFIG = demo_config\<rparr>"

definition same_page_env :: "json \<Rightarrow> (unit, int) env" where
  "same_page_env data =
     \<lparr>send = same_page_send data, transform_datetime = demo_transform_datetime,
      strptime_with_tz = demo_strptime, strftime = (\<lambda>t. Inr (show_int t)), py_str = demo_str,
      CONFIG = demo_config\<rparr>"

definition world0 :: "'s \<Rightarrow> 's world" where
  "world0 s = \<lparr>net = s, sleeps = [], out = []\<rparr>"

definition state0 :: sync_state where
  "state0 = \<lparr>bookmarks = Map.empty, currently_syncing = None\<rparr>"

text \<open>The consumer \<open>list(gen_request(...))\<close>: it keeps every row the generator yields.\<close>

definition collect :: "json \<Rightarrow> json list \<Rightarrow> 'w \<Rightarrow> ((exn + json list) \<times> 'w) option" where
  "collect row acc w = Some (Inr (acc @ [row]), w)"

definition demo_stream :: "string \<Rightarrow> stream" where
  "demo_stream sid =
     \<lparr>tap_stream_id = sid, schema = JObj [], md_table_key_properties = JArr [],
      md_selected = JBool True\<rparr>"

definition demo_state :: sync_state where
  "demo_state =
     \<lparr>bookmarks = [(''contacts'', ''updated_at'') \<mapsto> JStr ''12''],
      currently_syncing = Some ''lists''\<rparr>"

definition demo_lists_page :: json where
  "demo_lists_page =
     JObj [(''lists'', JArr [JObj [(''list_id'', JStr ''l1''), (''title'', JStr ''1k.csv'')]])]"


section \<open>Reference descriptions\<close>

text \<open>
  The retry policy in the spec's words, to compare \<open>request\<close> with: an outcome is worth
  another attempt when it is a request exception that is not a client error, and
  \<open>attempts target n i w\<close> is what \<open>n\<close> attempts in a row give, numbered from \<open>i\<close>,
  each followed by the exponential delay \<open>2 * 2 ^ (i - 1)\<close>: 2, 4, 8, 16 seconds.
\<close>

definition retryable :: "exn + 'a \<Rightarrow> bool" where
  "retryable r = (case r of Inl (RequestException resp) \<Rightarrow> \<not> client_error resp | _ \<Rightarrow> False)"

fun attempts ::
  "('s world \<Rightarrow> (exn + 'a) \<times> 's world) \<Rightarrow> nat \<Rightarrow> nat \<Rightarrow> 's world \<Rightarrow>
   ((exn + 'a) \<times> 's world) list" where
  "attempts target 0 i w = []"
| "attempts target (Suc n) i w =
     (case target w of
        (r, w1) \<Rightarrow>
          (r, w1) # attempts target n (Suc i) (w1\<lparr>sleeps := sleeps w1 @ [2 * 2 ^ (i - 1)]\<rparr>))"

text \<open>The key-value pairs of a sub-object, and the conversion of one property of a
  contact: a listed property becomes the array of the entries \<open>mk\<close> builds, one per key
  of the sub-object and in its order; any other property stays.\<close>

fun entries :: "json \<Rightarrow> (string \<times> json) list" where
  "entries (JObj kvs) = kvs"
| "entries v = []"

definition convert_prop ::
  "(string \<Rightarrow> json \<Rightarrow> json) \<Rightarrow> string list \<Rightarrow> string \<times> json \<Rightarrow> string \<times> json" where
  "convert_prop mk props kv =
     (if fst kv \<in> set props
      then (fst kv, JArr (map (\<lambda>(a, x). mk a x) (entries (snd kv)))) else kv)"

definition demo_mailed :: "(string \<times> json) list" where
  "demo_mailed =
     [(''contact_id'', JStr ''c2''),
      (''mail_opened'', JObj [(''msg1'', JInt 1600), (''msg2'', JInt 1700)]),
      (''anywhere_page_visits'', JObj [(''http://x.com'', JBool True)]),
      (''updated_at'', JInt 15)]"

text \<open>
  Pages, to state what the pagination engine does on a sequence of them: a page is a dict
  holding an array under the accessor key; \<open>page_rows\<close> are its records;
  \<open>string_token\<close> says that its continuation token, if it has one, is a string (as the
  API sends it); \<open>next_params\<close> are the parameters of the request after the page, for
  a resource whose name contains \<open>contact\<close> and for the others. \<open>run_rows\<close> folds a
  loop body that only writes messages over the rows.
\<close>

definition is_page :: "string \<Rightarrow> json \<Rightarrow> bool" where
  "is_page source_key data =
     (case data of
        JObj kvs \<Rightarrow> (case map_of kvs source_key of Some (JArr rows) \<Rightarrow> True | _ \<Rightarrow> False)
      | _ \<Rightarrow> False)"

definition page_rows :: "string \<Rightarrow> json \<Rightarrow> json list" where
  "page_rows source_key data =
     (case data of
        JObj kvs \<Rightarrow> (case map_of kvs source_key of Some (JArr rows) \<Rightarrow> rows | _ \<Rightarrow> [])
      | _ \<Rightarrow> [])"

definition string_token :: "json \<Rightarrow> bool" where
  "string_token data =
     (case data of
        JObj kvs \<Rightarrow>
          (case map_of kvs ''bookmark'' of None \<Rightarrow> True | Some (JStr b) \<Rightarrow> True | _ \<Rightarrow> False)
      | _ \<Rightarrow> True)"

definition next_params :: "string \<Rightarrow> json \<Rightarrow> (string \<rightharpoonup> json) \<Rightarrow> (string \<rightharpoonup> json)" where
  "next_params source data params =
     (if contains_str ''contact'' source
      then (case map_of (entries data) ''bookmark'' of
              Some token \<Rightarrow> params(''bookmark'' \<mapsto> token)
            | None \<Rightarrow> Map.empty)
      else params)"

fun run_rows :: "(json \<Rightarrow> 'a \<Rightarrow> 'a \<times> message list) \<Rightarrow> json list \<Rightarrow> 'a \<Rightarrow> 'a \<times> message list" where
  "run_rows g [] a = (a, [])"
| "run_rows g (row # rows) a =
     (case g row a of (a1, ms) \<Rightarrow> (case run_rows g rows a1 of (a2, ms') \<Rightarrow> (a2, ms @ ms')))"

text \<open>Pages and contacts to evaluate on.\<close>

definition demo_page :: "string \<Rightarrow> json list \<Rightarrow> string option \<Rightarrow> json" where
  "demo_page source_key rows token =
     JObj ((source_key, JArr rows) #
           (case token of None \<Rightarrow> [] | Some t \<Rightarrow> [(''bookmark'', JStr t)]))"

definition demo_contact :: "int \<Rightarrow> json" where
  "demo_contact t = JObj [(''contact_id'', JStr (show_int t)), (''updated_at'', JInt t)]"

definition demo_full_lists :: json where
  "demo_full_lists = demo_page ''lists'' (replicate 100 (JObj [(''list_id'', JStr ''l1'')])) None"

text \<open>The \<open>updated_at\<close> timestamp of a contact row as the contacts sync reads it:
  the field parsed as Unix milliseconds and then as a timestamp; \<open>None\<close> when the row
  has no such field or it does not parse.\<close>

definition updated_at_of :: "('s, 't) env \<Rightarrow> json \<Rightarrow> 't option" where
  "updated_at_of env row =
     (case row of
        JObj kvs \<Rightarrow>
          (case map_of kvs ''updated_at'' of
             None \<Rightarrow> None
           | Some v \<Rightarrow>
               (case and_then (transform_datetime env v) (strptime_with_tz env) of
                  Inl e \<Rightarrow> None
                | Inr t \<Rightarrow> Some t))
      | _ \<Rightarrow> None)"

definition demo_updated_at :: "json \<Rightarrow> int" where
  "demo_updated_at row = (case map_of (entries row) ''updated_at'' of Some (JInt n) \<Rightarrow> n | _ \<Rightarrow> 0)"

definition demo_contacts_page :: json where
  "demo_contacts_page =
     demo_page ''contacts'' [demo_contact 9, demo_contact 10, demo_contact 15, demo_contact 12] None"




section \<open>Evaluation\<close>

lemmas eval_defs =
  gen_request_def gen_request_loop.simps fetch_page_def request_def request_once_def
  raise_for_status_def response_json_def update_params_def parse_source_from_url_def
  parse_key_from_source_def BASE_URL_def is_word_char_def get_url_def ENDPOINTS_def
  and_then_def demo_env_def script_send_def ok_page_def world0_def emit_def PER_PAGE_def
  demo_config_def demo_stream_def

section \<open>Frame: the syncs other than contacts\<close>

text \<open>
  Claim C10. Syncing a stream other than \<open>contacts\<close> (that is \<open>lists\<close>,
  \<open>smart_segments\<close> or \<open>smart_segments_contacts\<close>; any other identifier does nothing)
  returns the sync state exactly as it was passed in: whenever \<open>sync\<close> returns, the
  state it returns is its argument. Only \<open>sync_contacts\<close> writes a bookmark.
\<close>

theorem sync_returns_state_unchanged:
  assumes "tap_stream_id strm \<noteq> ''contacts''"
    and "sync env state strm w = Some (Inr state', w')"
  shows "state' = state"
  using assms
  by (auto simp: sync_def returning_def split: if_splits option.splits sum.splits prod.splits)

theorem sync_returns_state_unchanged_witness:
  "tap_stream_id (demo_stream ''lists'') \<noteq> ''contacts'' \<and>
   sync demo_env demo_state (demo_stream ''lists'') (world0 [ok_page demo_lists_page]) =
     Some (Inr demo_state,
           \<lparr>net = [], sleeps = [],
            out = [SchemaMsg ''lists'' (JObj []) (JArr [JStr ''list_id'']),
                   RecordMsg ''lists''
                     (JObj [(''list_id'', JStr ''l1''), (''title'', JStr ''1k.csv'')])]\<rparr>)"
proof -
  have id: "tap_stream_id (demo_stream ''lists'') \<noteq> ''contacts''"
    by (simp add: demo_stream_def)
  obtain r where run:
    "sync demo_env demo_state (demo_stream ''lists'') (world0 [ok_page demo_lists_page]) =
       Some (Inr r,
             \<lparr>net = [], sleeps = [],
              out = [SchemaMsg ''lists'' (JObj []) (JArr [JStr ''list_id'']),
                     RecordMsg ''lists''
                       (JObj [(''list_id'', JStr ''l1''), (''title'', JStr ''1k.csv'')])]\<rparr>)"
    by (simp add: sync_def sync_lists_def returning_def write_row_def demo_lists_page_def
          eval_defs)
  from sync_returns_state_unchanged [OF id run] have "r = demo_state" .
  with id run show ?thesis by simp
qed

section \<open>The contacts loop on a record without \<open>updated_at\<close>\<close>



section \<open>The dispatcher on an empty catalog\<close>

text \<open>
  Claim C5. With no stream named in the state the dispatcher is to start from the
  beginning of the catalog. On the empty catalog it does not: \<open>get_streams_to_sync\<close>
  raises the unknown-stream error although the state names no stream, and \<open>do_sync\<close>
  fails with it before anything is written.
\<close>

theorem empty_catalog_raises_unknown_stream:
  "get_streams_to_sync [] state0 = Inl (Exception ''Unknown stream None in state'') \<and>
   do_sync env state0 [] w = Some (Inl (Exception ''Unknown stream None in state''), w)"
  by (simp add: get_streams_to_sync_def do_sync_def state0_def)

text \<open>The rest of the dispatcher's contract holds: a stream named in the state is resumed
  from, dropping the streams before it, or reported as unknown when the catalog lacks it;
  with no stream named a catalog that is not empty is synced from its beginning.\<close>

lemma get_streams_to_sync_resumes:
  assumes "currently_syncing state = Some c" and "c \<noteq> []"
  shows "get_streams_to_sync streams state =
           (if c \<in> tap_stream_id ` set streams
            then Inr (dropWhile (\<lambda>x. tap_stream_id x \<noteq> c) streams)
            else Inl (Exception (''Unknown stream '' @ c @ '' in state'')))"
proof -
  have "dropWhile (\<lambda>x. tap_stream_id x \<noteq> c) streams = [] \<longleftrightarrow>
          c \<notin> tap_stream_id ` set streams"
    by (auto simp: dropWhile_eq_Nil_conv)
  with assms show ?thesis by (simp add: get_streams_to_sync_def Let_def)
qed

lemma get_streams_to_sync_from_the_beginning:
  assumes "currently_syncing state = None" and "streams \<noteq> []"
  shows "get_streams_to_sync streams state = Inr streams"
  using assms by (simp add: get_streams_to_sync_def)

section \<open>The contact transform converts the listed properties\<close>

lemma format_rows_obj:
  assumes "distinct (map fst sub)"
    and "\<And>a x. (a, x) \<in> set sub \<Longrightarrow> entry (JStr a) x = Inr (mk a x)"
    and "set ys \<subseteq> set sub"
  shows "format_rows entry (JObj sub) (map (\<lambda>kv. JStr (fst kv)) ys) = Inr (map (\<lambda>(a, x). mk a x) ys)"
  using assms(3)
proof (induction ys)
  case Nil
  then show ?case by simp
next
  case (Cons y ys)
  obtain a x where y: "y = (a, x)" by (cases y)
  with Cons.prems have mem: "(a, x) \<in> set sub" by simp
  with assms(1) have "map_of sub a = Some x" by simp
  moreover from mem have "entry (JStr a) x = Inr (mk a x)" by (rule assms(2))
  moreover from Cons have "format_rows entry (JObj sub) (map (\<lambda>kv. JStr (fst kv)) ys) = Inr (map (\<lambda>(a, x). mk a x) ys)"
    by simp
  ultimately show ?case by (simp add: y and_then_def)
qed

lemma update_as_map:
  assumes "distinct (map fst kvs)" and "p \<in> fst ` set kvs"
  shows "AList.update p nv kvs = map (\<lambda>kv. if fst kv = p then (p, nv) else kv) kvs"
  using assms
proof (induction kvs)
  case Nil
  then show ?case by simp
next
  case (Cons kv kvs)
  show ?case
  proof (cases "fst kv = p")
    case True
    with Cons.prems have "p \<notin> fst ` set kvs" by auto
    then have "map (\<lambda>kv. if fst kv = p then (p, nv) else kv) kvs = kvs"
      by (induction kvs) auto
    with True show ?thesis by simp
  next
    case False
    with Cons show ?thesis by auto
  qed
qed

lemma transform_props_obj:
  assumes "distinct (map fst kvs)" and "distinct props"
    and "\<And>p v. p \<in> set props \<Longrightarrow> map_of kvs p = Some v \<Longrightarrow>
           \<exists>sub. v = JObj sub \<and> distinct (map fst sub) \<and>
                 (\<forall>(a, x) \<in> set sub. entry (JStr a) x = Inr (mk a x))"
  shows "transform_props entry props (JObj kvs) = Inr (JObj (map (convert_prop mk props) kvs))"
  using assms
proof (induction props arbitrary: kvs)
  case Nil
  then show ?case by (simp add: convert_prop_def)
next
  case (Cons p ps)
  from Cons.prems(2) have pps: "p \<notin> set ps" and dps: "distinct ps" by simp_all
  show ?case
  proof (cases "p \<in> fst ` set kvs")
    case False
    have "transform_props entry ps (JObj kvs) = Inr (JObj (map (convert_prop mk ps) kvs))"
      using Cons.prems(1) dps Cons.prems(3) by (intro Cons.IH) auto
    moreover have "map (convert_prop mk (p # ps)) kvs = map (convert_prop mk ps) kvs"
      using False by (auto simp: convert_prop_def)
    ultimately show ?thesis using False by (simp add: and_then_def)
  next
    case True
    then obtain v where v: "map_of kvs p = Some v"
      by (metis domD dom_map_of_conv_image_fst)
    from Cons.prems(3) [of p v] v obtain sub where
      sub: "v = JObj sub" "distinct (map fst sub)"
      "\<And>a x. (a, x) \<in> set sub \<Longrightarrow> entry (JStr a) x = Inr (mk a x)"
      by auto
    let ?nv = "JArr (map (\<lambda>(a, x). mk a x) sub)"
    let ?kvs' = "AList.update p ?nv kvs"
    have fr: "format_rows entry (JObj sub) (map (\<lambda>kv. JStr (fst kv)) sub) = Inr (map (\<lambda>(a, x). mk a x) sub)"
      using sub(2,3) by (intro format_rows_obj) auto
    have d': "distinct (map fst ?kvs')" using Cons.prems(1) by (simp add: AList.distinct_update)
    have same: "map_of ?kvs' q = map_of kvs q" if "q \<in> set ps" for q
      using that pps by (auto simp: AList.update_conv')
    have ih: "transform_props entry ps (JObj ?kvs') = Inr (JObj (map (convert_prop mk ps) ?kvs'))"
      using d' dps Cons.prems(3) same by (intro Cons.IH) auto
    have kv_p: "kv = (p, v)" if "kv \<in> set kvs" "fst kv = p" for kv
    proof -
      from that(1) have "(fst kv, snd kv) \<in> set kvs" by simp
      with Cons.prems(1) have "map_of kvs (fst kv) = Some (snd kv)" by (rule map_of_is_SomeI)
      with that(2) v have "snd kv = v" by simp
      with that(2) show ?thesis by (cases kv) simp
    qed
    have "convert_prop mk ps (if fst kv = p then (p, ?nv) else kv) = convert_prop mk (p # ps) kv"
      if "kv \<in> set kvs" for kv
    proof (cases "fst kv = p")
      case True
      with that have "kv = (p, JObj sub)" using kv_p sub(1) by simp
      with pps show ?thesis by (simp add: convert_prop_def)
    next
      case False
      then show ?thesis by (simp add: convert_prop_def)
    qed
    then have "map (convert_prop mk ps) ?kvs' = map (convert_prop mk (p # ps)) kvs"
      unfolding update_as_map [OF Cons.prems(1) True] by simp
    with ih True v sub(1) fr show ?thesis by (simp add: and_then_def)
  qed
qed


lemma fst_convert_prop: "fst (convert_prop mk props kv) = fst kv"
  by (simp add: convert_prop_def)

lemma map_of_convert_other:
  "p \<notin> set props \<Longrightarrow> map_of (map (convert_prop mk props) kvs) p = map_of kvs p"
  by (induction kvs) (auto simp: convert_prop_def)

text \<open>
  Claim C9. For every contact record (a dict with each listed property, where present, a
  sub-object), \<open>transform_contact\<close> turns each present boolean-keyed property into the
  array of \<open>{url, value}\<close> pairs of its sub-object, one per key, and each present
  timestamp-keyed property into the array of \<open>{id, timestamp}\<close> pairs, the timestamp
  being what the Unix-milliseconds parser \<open>transform_datetime\<close> returns for the value;
  every other property, and the order of the properties, is unchanged.
\<close>

theorem transform_contact_converts:
  assumes keys: "distinct (map fst kvs)"
    and subs: "\<And>p v. p \<in> set (boolean_props @ timestamp_props) \<Longrightarrow> map_of kvs p = Some v \<Longrightarrow>
             \<exists>sub. v = JObj sub \<and> distinct (map fst sub)"
    and parsed: "\<And>p sub i x. p \<in> set timestamp_props \<Longrightarrow> map_of kvs p = Some (JObj sub) \<Longrightarrow>
             (i, x) \<in> set sub \<Longrightarrow> transform_datetime env x = Inr (ts x)"
  shows "transform_contact env (JObj kvs) =
           Inr (JObj (map (\<lambda>(k, v).
                  if k \<in> set boolean_props
                    then (k, JArr (map (\<lambda>(u, x). JObj [(''url'', JStr u), (''value'', x)]) (entries v)))
                  else if k \<in> set timestamp_props
                    then (k, JArr (map (\<lambda>(i, x). JObj [(''id'', JStr i), (''timestamp'', ts x)])
                                    (entries v)))
                  else (k, v)) kvs))"
proof -
  let ?mkb = "\<lambda>u x. JObj [(''url'', JStr u), (''value'', x)]"
  let ?mkt = "\<lambda>i x. JObj [(''id'', JStr i), (''timestamp'', ts x)]"
  let ?kvs1 = "map (convert_prop ?mkb boolean_props) kvs"
  have disj: "p \<notin> set boolean_props" if "p \<in> set timestamp_props" for p
    using that by (auto simp: boolean_props_def timestamp_props_def)
  have pass1: "transform_props boolean_entry boolean_props (JObj kvs) = Inr (JObj ?kvs1)"
  proof (rule transform_props_obj [OF keys])
    show "distinct boolean_props" by (simp add: boolean_props_def)
  next
    fix p v assume "p \<in> set boolean_props" and "map_of kvs p = Some v"
    with subs [of p v] obtain sub where "v = JObj sub" "distinct (map fst sub)" by auto
    then show "\<exists>sub. v = JObj sub \<and> distinct (map fst sub) \<and>
                 (\<forall>(a, x) \<in> set sub. boolean_entry (JStr a) x = Inr (?mkb a x))"
      by (auto simp: boolean_entry_def)
  qed
  have keys1: "distinct (map fst ?kvs1)"
    using keys by (simp add: comp_def fst_convert_prop)
  have pass2: "transform_props (timestamp_entry env) timestamp_props (JObj ?kvs1) =
                 Inr (JObj (map (convert_prop ?mkt timestamp_props) ?kvs1))"
  proof (rule transform_props_obj [OF keys1])
    show "distinct timestamp_props" by (simp add: timestamp_props_def)
  next
    fix p v assume p: "p \<in> set timestamp_props" and "map_of ?kvs1 p = Some v"
    with disj have v: "map_of kvs p = Some v" by (simp add: map_of_convert_other)
    with subs [of p v] p obtain sub where sub: "v = JObj sub" "distinct (map fst sub)" by auto
    have "timestamp_entry env (JStr a) x = Inr (?mkt a x)" if "(a, x) \<in> set sub" for a x
      using parsed [OF p v [unfolded sub(1)] that] by (simp add: timestamp_entry_def and_then_def)
    with sub show "\<exists>sub. v = JObj sub \<and> distinct (map fst sub) \<and>
                 (\<forall>(a, x) \<in> set sub. timestamp_entry env (JStr a) x = Inr (?mkt a x))"
      by auto
  qed
  have "convert_prop ?mkt timestamp_props (convert_prop ?mkb boolean_props kv) =
          (case kv of (k, v) \<Rightarrow>
             if k \<in> set boolean_props
               then (k, JArr (map (\<lambda>(u, x). ?mkb u x) (entries v)))
             else if k \<in> set timestamp_props
               then (k, JArr (map (\<lambda>(i, x). ?mkt i x) (entries v)))
             else (k, v))" for kv
    using disj by (cases kv) (auto simp: convert_prop_def)
  then have "map (convert_prop ?mkt timestamp_props) ?kvs1 =
          map (\<lambda>(k, v).
             if k \<in> set boolean_props
               then (k, JArr (map (\<lambda>(u, x). ?mkb u x) (entries v)))
             else if k \<in> set timestamp_props
               then (k, JArr (map (\<lambda>(i, x). ?mkt i x) (entries v)))
             else (k, v)) kvs"
    by (simp add: comp_def)
  with pass1 pass2 show ?thesis by (simp add: transform_contact_def and_then_def)
qed

theorem transform_contact_converts_witness:
  "distinct (map fst demo_mailed) \<and>
   transform_contact demo_env (JObj demo_mailed) =
     Inr (JObj [(''contact_id'', JStr ''c2''),
                (''mail_opened'',
                   JArr [JObj [(''id'', JStr ''msg1''), (''timestamp'', JStr ''1600'')],
                         JObj [(''id'', JStr ''msg2''), (''timestamp'', JStr ''1700'')]]),
                (''anywhere_page_visits'',
                   JArr [JObj [(''url'', JStr ''http://x.com''), (''value'', JBool True)]]),
                (''updated_at'', JInt 15)])"
proof -
  have keys: "distinct (map fst demo_mailed)" by (simp add: demo_mailed_def)
  have subs: "\<exists>sub. v = JObj sub \<and> distinct (map fst sub)"
    if "p \<in> set (boolean_props @ timestamp_props)" "map_of demo_mailed p = Some v" for p v
    using that by (auto simp: demo_mailed_def boolean_props_def timestamp_props_def split: if_splits)
  have parsed: "transform_datetime demo_env x =
                  Inr (case x of JInt n \<Rightarrow> JStr (show_int n) | _ \<Rightarrow> JNull)"
    if "p \<in> set timestamp_props" "map_of demo_mailed p = Some (JObj sub)" "(i, x) \<in> set sub"
    for p sub i x
    by (simp add: demo_env_def demo_transform_datetime_def split: json.splits)
  from transform_contact_converts [of demo_mailed demo_env, OF keys subs parsed] keys
  show ?thesis
    by (simp add: demo_mailed_def boolean_props_def timestamp_props_def show_int_def)
qed

section \<open>The retry policy of the fetcher\<close>

text \<open>
  Claim C6. A failed fetch is retried, up to five attempts in all and with the delays
  2, 4, 8, 16 (exponential, factor 2), exactly when the failure is a request exception
  that is not a client error; a client error is a response with a status in [400, 500)
  other than 408, and it propagates at once. In full: \<open>request\<close> returns the outcome of
  the first attempt that is not a failure to retry, or of the fifth attempt.
\<close>

theorem request_retry_policy:
  "request env u params w =
     (let tr = attempts (request_once env u params) 5 1 w;
          k = length (takeWhile (\<lambda>(r, w1). retryable r) tr)
      in tr ! min k 4) \<and>
   (retryable r \<longleftrightarrow> (\<exists>resp. r = Inl (RequestException resp) \<and> \<not> client_error resp)) \<and>
   (client_error resp \<longleftrightarrow> (\<exists>s. resp = Some s \<and> 400 \<le> s \<and> s < 500 \<and> s \<noteq> 408))"
proof (intro conjI)
  show "request env u params w =
     (let tr = attempts (request_once env u params) 5 1 w;
          k = length (takeWhile (\<lambda>(r, w1). retryable r) tr)
      in tr ! min k 4)"
    unfolding request_def
    by (simp add: eval_nat_numeral retryable_def Let_def
          split: prod.splits sum.splits exn.splits)
  show "retryable r \<longleftrightarrow> (\<exists>resp. r = Inl (RequestException resp) \<and> \<not> client_error resp)"
    by (auto simp: retryable_def split: sum.splits exn.splits)
  show "client_error resp \<longleftrightarrow> (\<exists>s. resp = Some s \<and> 400 \<le> s \<and> s < 500 \<and> s \<noteq> 408)"
    by (auto simp: client_error_def split: option.splits)
qed

theorem request_retry_policy_witness:
  "request demo_env ''https://api2.autopilothq.com/v1/lists'' Map.empty
     (world0 [Inl (RequestException None), Inr (Response 503 None), Inr (Response 408 None),
              ok_page demo_lists_page, ok_page JNull]) =
     (Inr (Response 200 (Some demo_lists_page)),
      \<lparr>net = [ok_page JNull], sleeps = [2, 4, 8], out = []\<rparr>) \<and>
   request demo_env ''https://api2.autopilothq.com/v1/lists'' Map.empty
     (world0 [Inr (Response 404 None), ok_page demo_lists_page]) =
     (Inl (RequestException (Some 404)),
      \<lparr>net = [ok_page demo_lists_page], sleeps = [], out = []\<rparr>) \<and>
   request demo_env ''https://api2.autopilothq.com/v1/lists'' Map.empty (world0 []) =
     (Inl (RequestException None), \<lparr>net = [], sleeps = [2, 4, 8, 16], out = []\<rparr>)"
proof -
  have trace: "request demo_env u Map.empty w =
     (let tr = attempts (request_once demo_env u Map.empty) 5 1 w;
          k = length (takeWhile (\<lambda>(r, w1). retryable r) tr)
      in tr ! min k 4)" for u w
    using request_retry_policy [of demo_env u Map.empty w] by blast
  show ?thesis
    unfolding trace
    by (simp add: eval_nat_numeral retryable_def client_error_def Let_def request_once_def
          raise_for_status_def parse_source_from_url_def BASE_URL_def is_word_char_def
          demo_env_def script_send_def ok_page_def world0_def demo_config_def)
qed

section \<open>A URL that names a source still does after a suffix is appended\<close>

lemma match_literal_append:
  "match_literal p u = Some rest \<Longrightarrow> match_literal p (u @ s) = Some (rest @ s)"
  by (induction p u rule: match_literal.induct) (auto split: if_splits)

lemma last_slash_word_append:
  "last_slash_word xs \<noteq> None \<Longrightarrow> last_slash_word (xs @ ys) \<noteq> None"
proof (induction xs)
  case Nil
  then show ?case by simp
next
  case (Cons c cs)
  show ?case
  proof (cases "last_slash_word cs")
    case None
    show ?thesis
    proof (cases cs)
      case Nil
      with Cons.prems show ?thesis by simp
    next
      case (Cons d ds)
      with None Cons.prems have "c = CHR ''/'' \<and> is_word_char d"
        by (simp split: if_splits)
      with Cons show ?thesis by (simp split: option.split)
    qed
  next
    case (Some a)
    with Cons.IH obtain b where "last_slash_word (cs @ ys) = Some b" by auto
    then show ?thesis by (simp split: prod.split)
  qed
qed

lemma takeWhile_append_cases:
  "takeWhile P (xs @ ys) = takeWhile P xs \<or> (\<exists>zs. takeWhile P (xs @ ys) = takeWhile P xs @ zs)"
  by (induction xs) auto

lemma parse_source_from_url_append:
  assumes "parse_source_from_url u = Inr src"
  shows "\<exists>src'. parse_source_from_url (u @ s) = Inr src'"
proof -
  from assms obtain rest where rest: "match_literal BASE_URL u = Some rest"
    by (auto simp: parse_source_from_url_def split: option.splits)
  with assms have found: "last_slash_word (takeWhile (\<lambda>c. c \<noteq> CHR 0x0A) rest) \<noteq> None"
    by (auto simp: parse_source_from_url_def split: option.splits)
  from rest have rest': "match_literal BASE_URL (u @ s) = Some (rest @ s)"
    by (rule match_literal_append)
  from takeWhile_append_cases [of "\<lambda>c. c \<noteq> CHR 0x0A" rest s]
  obtain zs where "takeWhile (\<lambda>c. c \<noteq> CHR 0x0A) (rest @ s) =
                     takeWhile (\<lambda>c. c \<noteq> CHR 0x0A) rest @ zs"
    by (metis append_Nil2)
  with last_slash_word_append [OF found, of zs]
  have "last_slash_word (takeWhile (\<lambda>c. c \<noteq> CHR 0x0A) (rest @ s)) \<noteq> None"
    by simp
  with rest' show ?thesis
    by (auto simp: parse_source_from_url_def Let_def split: option.splits)
qed

lemma request_first_try:
  assumes "\<And>req. send env (net w) req = (Inr (Response st body), s')"
    and "\<not> (400 \<le> st \<and> st < 600)"
    and "parse_source_from_url endpoint = Inr src"
    and "params ''bookmark'' = None \<or> (\<exists>b. params ''bookmark'' = Some (JStr b))"
  shows "request env endpoint params w = (Inr (Response st body), w\<lparr>net := s'\<rparr>)"
proof -
  from assms(4) obtain u' where u':
    "(case params ''bookmark'' of None \<Rightarrow> Inr endpoint | Some (JStr b) \<Rightarrow> Inr (endpoint @ ''/'' @ b)
        | Some other \<Rightarrow> Inl TypeError) = Inr u'" "u' = endpoint \<or> (\<exists>s. u' = endpoint @ s)"
    by auto
  from u'(2) assms(3) obtain tag where "parse_source_from_url u' = Inr tag"
    using parse_source_from_url_append by blast
  with u'(1) assms(1,2) have "request_once env endpoint params w = (Inr (Response st body), w\<lparr>net := s'\<rparr>)"
    by (simp add: request_once_def raise_for_status_def)
  then show ?thesis by (simp add: request_def)
qed

section \<open>One turn of the pagination loop, and the loop against a scripted transport\<close>

lemma is_pageE:
  assumes "is_page key d"
  obtains kvs where "d = JObj kvs" "map_of kvs key = Some (JArr (page_rows key d))"
  using assms by (auto simp: is_page_def page_rows_def split: json.splits option.splits)

lemma fetch_page_of_request:
  assumes "request env endpoint params w = (Inr (Response st (Some (JObj kvs))), w1)"
    and "map_of kvs key = Some (JArr rows)"
  shows "fetch_page env endpoint source key params w =
           (Inr (JObj kvs, next_params source (JObj kvs) params, rows), w1)"
proof -
  have "update_params source (JObj kvs) params = Inr (next_params source (JObj kvs) params)"
  proof (cases "map_of kvs ''bookmark''")
    case None
    then have "''bookmark'' \<notin> fst ` set kvs" by (simp add: map_of_eq_None_iff)
    with None show ?thesis by (simp add: update_params_def next_params_def and_then_def)
  next
    case (Some token)
    then have "(''bookmark'', token) \<in> set kvs" by (rule map_of_SomeD)
    then have "''bookmark'' \<in> fst ` set kvs" by force
    with Some show ?thesis by (simp add: update_params_def next_params_def and_then_def)
  qed
  with assms show ?thesis
    by (simp add: fetch_page_def response_json_def and_then_def)
qed

lemma loop_step:
  assumes "request env endpoint params w = (Inr (Response st (Some (JObj kvs))), w1)"
    and "map_of kvs key = Some (JArr rows)"
    and "for_rows body rows acc w1 = Some (Inr acc2, w2)"
  shows "gen_request_loop env endpoint source key body params acc w =
           (if length rows < PER_PAGE then Some (Inr acc2, w2)
            else gen_request_loop env endpoint source key body
                   (next_params source (JObj kvs) params) acc2 w2)"
  by (subst gen_request_loop.simps)
     (simp add: fetch_page_of_request [OF assms(1,2)] assms(2,3) and_then_def)

lemma for_rows_pure:
  assumes "\<And>row a w. row \<in> set rows \<Longrightarrow>
             body row a w = Some (Inr (fst (g row a)), w\<lparr>out := out w @ snd (g row a)\<rparr>)"
  shows "for_rows body rows acc w =
           Some (Inr (fst (run_rows g rows acc)), w\<lparr>out := out w @ snd (run_rows g rows acc)\<rparr>)"
  using assms
proof (induction rows arbitrary: acc w)
  case Nil
  then show ?case by simp
next
  case (Cons row rows)
  then show ?case by (simp add: split_beta)
qed

lemma run_rows_append:
  "run_rows g (xs @ ys) a =
     (case run_rows g xs a of (a1, ms) \<Rightarrow> (case run_rows g ys a1 of (a2, ms') \<Rightarrow> (a2, ms @ ms')))"
  by (induction xs arbitrary: a) (auto simp: split_beta)

lemma string_params_next:
  assumes "params ''bookmark'' = None \<or> (\<exists>b. params ''bookmark'' = Some (JStr b))"
    and "contains_str ''contact'' source \<longrightarrow> string_token (JObj kvs)"
  shows "next_params source (JObj kvs) params ''bookmark'' = None \<or>
         (\<exists>b. next_params source (JObj kvs) params ''bookmark'' = Some (JStr b))"
  using assms by (auto simp: next_params_def string_token_def split: option.splits json.splits)

lemma gen_request_loop_script:
  assumes send: "send env = script_send"
    and url: "parse_source_from_url endpoint = Inr src0"
    and body: "\<And>row a w. row \<in> set (concat (map (page_rows key) (fulls @ [final]))) \<Longrightarrow>
                 body row a w = Some (Inr (fst (g row a)), w\<lparr>out := out w @ snd (g row a)\<rparr>)"
    and fulls: "\<And>d. d \<in> set fulls \<Longrightarrow>
                 is_page key d \<and> PER_PAGE \<le> length (page_rows key d) \<and>
                 (contains_str ''contact'' source \<longrightarrow> string_token d)"
    and final: "is_page key final" "length (page_rows key final) < PER_PAGE"
    and net: "net w = map ok_page (fulls @ [final]) @ rest"
    and params: "params ''bookmark'' = None \<or> (\<exists>b. params ''bookmark'' = Some (JStr b))"
  shows "gen_request_loop env endpoint source key body params acc w =
           Some (Inr (fst (run_rows g (concat (map (page_rows key) (fulls @ [final]))) acc)),
                 w\<lparr>net := rest,
                   out := out w @ snd (run_rows g (concat (map (page_rows key) (fulls @ [final]))) acc)\<rparr>)"
  using body fulls net params
proof (induction fulls arbitrary: params acc w)
  case Nil
  from final(1) obtain kvs where kvs: "final = JObj kvs"
    "map_of kvs key = Some (JArr (page_rows key final))" by (rule is_pageE)
  have req: "request env endpoint params w = (Inr (Response 200 (Some (JObj kvs))), w\<lparr>net := rest\<rparr>)"
    using Nil.prems(3,4) url
    by (intro request_first_try) (auto simp: send script_send_def ok_page_def kvs(1))
  have rows: "for_rows body (page_rows key final) acc (w\<lparr>net := rest\<rparr>) =
        Some (Inr (fst (run_rows g (page_rows key final) acc)),
              w\<lparr>net := rest, out := out w @ snd (run_rows g (page_rows key final) acc)\<rparr>)"
    using Nil.prems(1) by (subst for_rows_pure [where g = g]) auto
  show ?case
    using final(2) by (simp add: loop_step [OF req kvs(2) rows])
next
  case (Cons d ds)
  from Cons.prems(2) [of d] have d: "is_page key d" "PER_PAGE \<le> length (page_rows key d)"
    "contains_str ''contact'' source \<longrightarrow> string_token d" by simp_all
  from d(1) obtain kvs where kvs: "d = JObj kvs"
    "map_of kvs key = Some (JArr (page_rows key d))" by (rule is_pageE)
  let ?w1 = "w\<lparr>net := map ok_page (ds @ [final]) @ rest\<rparr>"
  have req: "request env endpoint params w = (Inr (Response 200 (Some (JObj kvs))), ?w1)"
    using Cons.prems(3,4) url
    by (intro request_first_try) (auto simp: send script_send_def ok_page_def kvs(1))
  let ?r1 = "run_rows g (page_rows key d) acc"
  let ?w2 = "?w1\<lparr>out := out w @ snd ?r1\<rparr>"
  have rows: "for_rows body (page_rows key d) acc ?w1 = Some (Inr (fst ?r1), ?w2)"
    using Cons.prems(1) by (subst for_rows_pure [where g = g]) auto
  have step: "gen_request_loop env endpoint source key body params acc w =
          gen_request_loop env endpoint source key body (next_params source (JObj kvs) params)
            (fst ?r1) ?w2"
    using d(2) by (simp add: loop_step [OF req kvs(2) rows])
  have ih: "gen_request_loop env endpoint source key body (next_params source (JObj kvs) params)
            (fst ?r1) ?w2 =
          Some (Inr (fst (run_rows g (concat (map (page_rows key) (ds @ [final]))) (fst ?r1))),
                ?w2\<lparr>net := rest,
                  out := out ?w2 @
                    snd (run_rows g (concat (map (page_rows key) (ds @ [final]))) (fst ?r1))\<rparr>)"
  proof (rule Cons.IH)
    show "next_params source (JObj kvs) params ''bookmark'' = None \<or>
         (\<exists>b. next_params source (JObj kvs) params ''bookmark'' = Some (JStr b))"
      using Cons.prems(4) d(3) kvs(1) by (intro string_params_next) auto
  qed (use Cons.prems in auto)
  show ?case
    unfolding step ih by (simp add: run_rows_append split_beta)
qed

lemma for_rows_collect: "for_rows collect rows acc w = Some (Inr (acc @ rows), w)"
  by (induction rows arbitrary: acc) (simp_all add: collect_def)

lemma run_rows_collect:
  "run_rows (\<lambda>row a. (a @ [row], [])) rows acc = (acc @ rows, [])"
  by (induction rows arbitrary: acc) simp_all

lemma length_full_pages:
  assumes "\<And>d. d \<in> set fulls \<Longrightarrow> length (page_rows key d) = n"
  shows "length (concat (map (page_rows key) (fulls @ [final]))) =
           length fulls * n + length (page_rows key final)"
  using assms by (induction fulls) auto

section \<open>The continuation token of a contacts page\<close>




section \<open>The pagination engine on full pages followed by a short one\<close>

text \<open>
  Claim C2. For every page sequence in which each page has exactly 100 records except the
  last, which has fewer, the pagination engine yields exactly the concatenation of the
  pages' records, \<open>100 * k + N\<close> of them, and stops right after the short page: the
  answers after it stay unrequested, also when the short page carries a continuation
  token.
\<close>

theorem pagination_yields_all_pages:
  assumes "send env = script_send"
    and "parse_source_from_url endpoint = Inr source"
    and "\<forall>d \<in> set fulls. is_page (parse_key_from_source source) d \<and>
           length (page_rows (parse_key_from_source source) d) = PER_PAGE \<and>
           (contains_str ''contact'' source \<longrightarrow> string_token d)"
    and "is_page (parse_key_from_source source) final"
    and "length (page_rows (parse_key_from_source source) final) < PER_PAGE"
    and "net w = map ok_page (fulls @ [final]) @ rest"
  shows "gen_request env endpoint Map.empty collect [] w =
           Some (Inr (concat (map (page_rows (parse_key_from_source source)) (fulls @ [final]))),
                 w\<lparr>net := rest\<rparr>) \<and>
         length (concat (map (page_rows (parse_key_from_source source)) (fulls @ [final]))) =
           length fulls * PER_PAGE + length (page_rows (parse_key_from_source source) final)"
proof
  let ?key = "parse_key_from_source source"
  let ?all = "concat (map (page_rows ?key) (fulls @ [final]))"
  have "gen_request_loop env endpoint source ?key collect Map.empty [] w =
          Some (Inr (fst (run_rows (\<lambda>row a. (a @ [row], [])) ?all [])),
                w\<lparr>net := rest, out := out w @ snd (run_rows (\<lambda>row a. (a @ [row], [])) ?all [])\<rparr>)"
    using assms by (intro gen_request_loop_script) (auto simp: collect_def)
  then show "gen_request env endpoint Map.empty collect [] w = Some (Inr ?all, w\<lparr>net := rest\<rparr>)"
    using assms(2) by (simp add: gen_request_def run_rows_collect)
  show "length ?all = length fulls * PER_PAGE + length (page_rows ?key final)"
    using assms(3) by (intro length_full_pages) simp
qed

theorem pagination_yields_all_pages_witness:
  "gen_request demo_env ''https://api2.autopilothq.com/v1/contacts'' Map.empty collect []
     (world0 [ok_page (demo_page ''contacts'' (replicate 100 (demo_contact 7)) (Some ''person_9EAF'')),
              ok_page (demo_page ''contacts'' [demo_contact 8, demo_contact 9] (Some ''person_A001'')),
              ok_page JNull]) =
     Some (Inr (replicate 100 (demo_contact 7) @ [demo_contact 8, demo_contact 9]),
           world0 [ok_page JNull]) \<and>
   length (replicate 100 (demo_contact 7) @ [demo_contact 8, demo_contact 9]) = 1 * PER_PAGE + 2"
proof -
  let ?full = "demo_page ''contacts'' (replicate 100 (demo_contact 7)) (Some ''person_9EAF'')"
  let ?short = "demo_page ''contacts'' [demo_contact 8, demo_contact 9] (Some ''person_A001'')"
  have send: "send demo_env = script_send" by (simp add: demo_env_def)
  have src: "parse_source_from_url ''https://api2.autopilothq.com/v1/contacts'' = Inr ''contacts''"
    by (simp add: parse_source_from_url_def BASE_URL_def is_word_char_def)
  have key: "parse_key_from_source ''contacts'' = ''contacts''"
    by (simp add: parse_key_from_source_def)
  have fulls: "\<forall>d \<in> set [?full]. is_page (parse_key_from_source ''contacts'') d \<and>
           length (page_rows (parse_key_from_source ''contacts'') d) = PER_PAGE \<and>
           (contains_str ''contact'' ''contacts'' \<longrightarrow> string_token d)"
    by (simp add: key is_page_def page_rows_def string_token_def demo_page_def PER_PAGE_def)
  have final: "is_page (parse_key_from_source ''contacts'') ?short"
    "length (page_rows (parse_key_from_source ''contacts'') ?short) < PER_PAGE"
    by (simp_all add: key is_page_def page_rows_def demo_page_def PER_PAGE_def)
  have net: "net (world0 [ok_page ?full, ok_page ?short, ok_page JNull]) =
               map ok_page ([?full] @ [?short]) @ [ok_page JNull]"
    by (simp add: world0_def)
  from pagination_yields_all_pages [OF send src fulls final net]
  show ?thesis
    by (simp add: key page_rows_def demo_page_def world0_def PER_PAGE_def)
qed

section \<open>Termination of the pagination engine\<close>

text \<open>
  Against a transport that answers every request for the lists with the same page of 100
  records the loop never ends: the page is full, the parameters of a resource other than
  contacts never change, and the same request is made again.
\<close>

lemma same_page_never_returns:
  assumes "gen_request_loop env endpoint source key body params acc w = Some y"
  shows "\<not> (env = same_page_env demo_full_lists \<and>
            endpoint = ''https://api2.autopilothq.com/v1/lists'' \<and> source = ''lists'' \<and>
            key = ''lists'' \<and> body = collect \<and> params = Map.empty)"
  using assms
proof (induction env endpoint source key body params acc w y
        rule: gen_request_loop.raw_induct [rotated, consumes 1])
  case (1 loop env endpoint source key body params acc w y)
  show ?case
  proof
    assume c: "env = same_page_env demo_full_lists \<and>
            endpoint = ''https://api2.autopilothq.com/v1/lists'' \<and> source = ''lists'' \<and>
            key = ''lists'' \<and> body = collect \<and> params = Map.empty"
    let ?rows = "replicate 100 (JObj [(''list_id'', JStr ''l1'')])"
    have req: "request env endpoint params w =
                 (Inr (Response 200 (Some (JObj [(''lists'', JArr ?rows)]))), w)"
      using c
      by (simp add: request_def request_once_def raise_for_status_def parse_source_from_url_def
            BASE_URL_def is_word_char_def same_page_env_def same_page_send_def ok_page_def
            demo_config_def demo_full_lists_def demo_page_def)
    have mp: "map_of [(''lists'', JArr ?rows)] key = Some (JArr ?rows)"
      using c by simp
    have fp: "fetch_page env endpoint source key params w =
                (Inr (JObj [(''lists'', JArr ?rows)], params, ?rows), w)"
      using fetch_page_of_request [OF req mp, of source] c by (simp add: next_params_def)
    from c have b: "body = collect" and k: "key = ''lists''" by simp_all
    from "1.hyps" [unfolded fp]
    have "loop env endpoint source key body params (acc @ ?rows) w = Some y"
      by (simp add: b k for_rows_collect and_then_def PER_PAGE_def)
    from "1.IH" [OF this] c show False by simp
  qed
qed

theorem full_pages_forever_counterexample:
  "gen_request (same_page_env demo_full_lists) ''https://api2.autopilothq.com/v1/lists''
     Map.empty collect [] (world0 ()) = None"
proof -
  have "gen_request_loop (same_page_env demo_full_lists) ''https://api2.autopilothq.com/v1/lists''
          ''lists'' ''lists'' collect Map.empty [] (world0 ()) = None"
    using same_page_never_returns
      [of "same_page_env demo_full_lists" "''https://api2.autopilothq.com/v1/lists''"
          "''lists''" "''lists''" collect Map.empty "[]" "world0 ()"]
    by (cases "gen_request_loop (same_page_env demo_full_lists)
                 ''https://api2.autopilothq.com/v1/lists'' ''lists'' ''lists'' collect Map.empty []
                 (world0 ())") auto
  then show ?thesis
    by (simp add: gen_request_def parse_source_from_url_def BASE_URL_def is_word_char_def
          parse_key_from_source_def)
qed

text \<open>
  Claim C4, amended. For every endpoint that names a source and every initial parameters
  (with a string bookmark, if any), the record sequence ends as soon as a fetched page
  holds fewer than 100 records: after any number of pages of 100 records or more and then
  a shorter one the engine returns, having requested nothing after the short page.
\<close>

theorem pagination_terminates_after_short_page:
  assumes "send env = script_send"
    and "parse_source_from_url endpoint = Inr source"
    and "params ''bookmark'' = None \<or> (\<exists>b. params ''bookmark'' = Some (JStr b))"
    and "\<forall>d \<in> set fulls. is_page (parse_key_from_source source) d \<and>
           PER_PAGE \<le> length (page_rows (parse_key_from_source source) d) \<and>
           (contains_str ''contact'' source \<longrightarrow> string_token d)"
    and "is_page (parse_key_from_source source) final"
    and "length (page_rows (parse_key_from_source source) final) < PER_PAGE"
    and "net w = map ok_page (fulls @ [final]) @ rest"
  shows "\<exists>rows. gen_request env endpoint params collect [] w = Some (Inr rows, w\<lparr>net := rest\<rparr>)"
proof -
  let ?key = "parse_key_from_source source"
  let ?all = "concat (map (page_rows ?key) (fulls @ [final]))"
  have "gen_request_loop env endpoint source ?key collect params [] w =
          Some (Inr (fst (run_rows (\<lambda>row a. (a @ [row], [])) ?all [])),
                w\<lparr>net := rest, out := out w @ snd (run_rows (\<lambda>row a. (a @ [row], [])) ?all [])\<rparr>)"
    using assms by (intro gen_request_loop_script) (auto simp: collect_def)
  then show ?thesis
    using assms(2) by (simp add: gen_request_def run_rows_collect)
qed

theorem pagination_terminates_after_short_page_witness:
  "\<exists>rows. gen_request demo_env ''https://api2.autopilothq.com/v1/lists''
            [''bookmark'' \<mapsto> JStr ''person_A001''] collect []
            (world0 [ok_page (demo_page ''lists'' (replicate 120 (JObj [])) None),
                     ok_page (demo_page ''lists'' (replicate 100 (JObj [])) None),
                     ok_page (demo_page ''lists'' (replicate 99 (JObj [])) None),
                     ok_page demo_full_lists]) =
          Some (Inr rows, world0 [ok_page demo_full_lists])"
proof -
  let ?p1 = "demo_page ''lists'' (replicate 120 (JObj [])) None"
  let ?p2 = "demo_page ''lists'' (replicate 100 (JObj [])) None"
  let ?p3 = "demo_page ''lists'' (replicate 99 (JObj [])) None"
  have send: "send demo_env = script_send" by (simp add: demo_env_def)
  have src: "parse_source_from_url ''https://api2.autopilothq.com/v1/lists'' = Inr ''lists''"
    by (simp add: parse_source_from_url_def BASE_URL_def is_word_char_def)
  have key: "parse_key_from_source ''lists'' = ''lists''"
    by (simp add: parse_key_from_source_def)
  have params: "[''bookmark'' \<mapsto> JStr ''person_A001''] ''bookmark'' = None \<or>
                (\<exists>b. [''bookmark'' \<mapsto> JStr ''person_A001''] ''bookmark'' = Some (JStr b))"
    by simp
  have fulls: "\<forall>d \<in> set [?p1, ?p2]. is_page (parse_key_from_source ''lists'') d \<and>
           PER_PAGE \<le> length (page_rows (parse_key_from_source ''lists'') d) \<and>
           (contains_str ''contact'' ''lists'' \<longrightarrow> string_token d)"
    by (simp add: key is_page_def page_rows_def string_token_def demo_page_def PER_PAGE_def)
  have final: "is_page (parse_key_from_source ''lists'') ?p3"
    "length (page_rows (parse_key_from_source ''lists'') ?p3) < PER_PAGE"
    by (simp_all add: key is_page_def page_rows_def demo_page_def PER_PAGE_def)
  have net: "net (world0 [ok_page ?p1, ok_page ?p2, ok_page ?p3, ok_page demo_full_lists]) =
               map ok_page ([?p1, ?p2] @ [?p3]) @ [ok_page demo_full_lists]"
    by (simp add: world0_def)
  from pagination_terminates_after_short_page
         [where params = "[''bookmark'' \<mapsto> JStr ''person_A001'']", OF send src params fulls final net]
  show ?thesis by (simp add: world0_def)
qed

section \<open>What the loop variable of a consumer keeps through the pagination\<close>

lemma for_rows_invariant:
  assumes "for_rows body rows acc w = Some (Inr acc', w')"
    and "I acc"
    and "\<And>row a w a' w'. I a \<Longrightarrow> body row a w = Some (Inr a', w') \<Longrightarrow> I a'"
  shows "I acc'"
  using assms(1,2)
proof (induction rows arbitrary: acc w)
  case Nil
  then show ?case by simp
next
  case (Cons row rows)
  from Cons.prems(1) obtain a1 w1 where
    b: "body row acc w = Some (Inr a1, w1)" and r: "for_rows body rows a1 w1 = Some (Inr acc', w')"
    by (auto split: option.splits sum.splits prod.splits)
  from assms(3) [OF Cons.prems(2) b] have "I a1" .
  with r show ?case by (rule Cons.IH)
qed

lemma gen_request_loop_invariant:
  assumes "gen_request_loop env endpoint source key body params acc w = Some y"
  shows "(\<forall>row a w a' w'. I a \<longrightarrow> body row a w = Some (Inr a', w') \<longrightarrow> I a') \<longrightarrow> I acc \<longrightarrow>
         (\<forall>acc' w'. y = (Inr acc', w') \<longrightarrow> I acc')"
  using assms
proof (induction env endpoint source key body params acc w y
        rule: gen_request_loop.raw_induct [rotated, consumes 1])
  case (1 loop env endpoint source key body params acc w y)
  show ?case
  proof (intro impI allI)
    fix acc' w'
    assume pres: "\<forall>row a w a' w'. I a \<longrightarrow> body row a w = Some (Inr a', w') \<longrightarrow> I a'"
      and acc: "I acc" and y: "y = (Inr acc', w')"
    from "1.hyps" y obtain data params1 rows w1 acc2 w2 where
      rows: "for_rows body rows acc w1 = Some (Inr acc2, w2)" and
      rest: "(Some (Inr acc2, w2) = Some (Inr acc', w')) \<or>
             loop env endpoint source key body params1 acc2 w2 = Some (Inr acc', w')"
      by (auto split: prod.splits sum.splits option.splits if_splits) blast
    have acc2: "I acc2"
    proof (rule for_rows_invariant [where I = I, OF rows acc])
      fix row a w a' w'
      assume "I a" and "body row a w = Some (Inr a', w')"
      with pres show "I a'" by blast
    qed
    from rest show "I acc'"
    proof
      assume "Some (Inr acc2, w2) = Some (Inr acc', w')"
      with acc2 show ?thesis by simp
    next
      assume "loop env endpoint source key body params1 acc2 w2 = Some (Inr acc', w')"
      from "1.IH" [OF this] pres acc2 show ?thesis by blast
    qed
  qed
qed

lemma contacts_row_keeps_start_below:
  fixes start :: "'t::preorder"
  assumes "start \<le> mx" and "contacts_row env sid start row mx w = Some (Inr mx', w')"
  shows "start \<le> mx'"
proof -
  from assms(2) obtain updated_at where
    "mx' = (case updated_at of None \<Rightarrow> mx | Some t \<Rightarrow> if t > mx then t else mx)"
    by (auto simp: contacts_row_def split: sum.splits)
  with assms(1) show ?thesis
    by (auto split: option.splits intro: order_trans less_imp_le)
qed

section \<open>The bookmark of the contacts sync\<close>

text \<open>
  Claim C7. For every successful contacts sync and every prior state, whatever the
  transport answers: the sync started from the prior \<open>updated_at\<close> bookmark, or from
  the configured start date if there was none, and the bookmark it persists is the string
  form (\<open>strftime\<close>) of a timestamp greater than or equal to the one it started from.
  Bookmarks do not move back.
\<close>

theorem bookmark_never_moves_back:
  fixes env :: "('s, 't::preorder) env"
  assumes "sync_contacts env STATE strm w = Some (Inr STATE', w')"
  shows "\<exists>start m bookmark.
           strptime_with_tz env
             (case bookmarks STATE (tap_stream_id strm, ''updated_at'') of
                None \<Rightarrow> start_date (CONFIG env)
              | Some prior \<Rightarrow> if prior = JNull then start_date (CONFIG env) else prior) = Inr start \<and>
           strftime env m = Inr bookmark \<and>
           bookmarks STATE' (tap_stream_id strm, ''updated_at'') = Some (JStr bookmark) \<and>
           start \<le> m"
proof -
  let ?sid = "tap_stream_id strm"
  have gs: "get_start env STATE ?sid ''updated_at'' =
          (case bookmarks STATE (?sid, ''updated_at'') of
                None \<Rightarrow> start_date (CONFIG env)
              | Some prior \<Rightarrow> if prior = JNull then start_date (CONFIG env) else prior)"
    by (simp add: get_start_def get_bookmark_def Let_def split: option.splits)
  from assms obtain start endpoint w0 m w1 bookmark where
    start: "strptime_with_tz env (get_start env STATE ?sid ''updated_at'') = Inr start" and
    run: "gen_request env endpoint Map.empty (contacts_row env ?sid start) start w0 =
            Some (Inr m, w1)" and
    fmt: "strftime env m = Inr bookmark" and
    st: "STATE' = write_bookmark STATE ?sid ''updated_at'' (JStr bookmark)"
    by (auto simp: sync_contacts_def Let_def and_then_def
             split: sum.splits option.splits prod.splits)
  from run obtain source key where
    loop: "gen_request_loop env endpoint source key (contacts_row env ?sid start) Map.empty
             start w0 = Some (Inr m, w1)"
    by (auto simp: gen_request_def split: sum.splits)
  from gen_request_loop_invariant [OF loop, of "\<lambda>a. start \<le> a"]
  have "start \<le> m" by (auto intro: contacts_row_keeps_start_below)
  with start fmt st show ?thesis
    unfolding gs by (auto simp: write_bookmark_def)
qed

theorem bookmark_never_moves_back_witness:
  "sync_contacts demo_env demo_state (demo_stream ''contacts'')
     (world0 [ok_page (demo_page ''contacts'' [demo_contact 9, demo_contact 13] None)]) =
     Some (Inr (write_bookmark demo_state ''contacts'' ''updated_at'' (JStr ''13'')),
           \<lparr>net = [], sleeps = [],
            out = [SchemaMsg ''contacts'' (JObj []) (JArr []),
                   RecordMsg ''contacts'' (demo_contact 13),
                   StateMsg (write_bookmark demo_state ''contacts'' ''updated_at'' (JStr ''13''))]\<rparr>) \<and>
   (\<exists>start m bookmark. strptime_with_tz demo_env (JStr ''12'') = Inr start \<and>
      strftime demo_env m = Inr bookmark \<and>
      bookmarks (write_bookmark demo_state ''contacts'' ''updated_at'' (JStr ''13''))
        (''contacts'', ''updated_at'') = Some (JStr bookmark) \<and>
      start \<le> m)"
proof -
  have run: "sync_contacts demo_env demo_state (demo_stream ''contacts'')
     (world0 [ok_page (demo_page ''contacts'' [demo_contact 9, demo_contact 13] None)]) =
     Some (Inr (write_bookmark demo_state ''contacts'' ''updated_at'' (JStr ''13'')),
           \<lparr>net = [], sleeps = [],
            out = [SchemaMsg ''contacts'' (JObj []) (JArr []),
                   RecordMsg ''contacts'' (demo_contact 13),
                   StateMsg (write_bookmark demo_state ''contacts'' ''updated_at'' (JStr ''13''))]\<rparr>)"
    by (simp add: sync_contacts_def contacts_row_def transform_contact_def boolean_props_def
          timestamp_props_def get_start_def get_bookmark_def demo_state_def demo_page_def
          demo_contact_def demo_transform_datetime_def demo_strptime_def show_int_def
          read_int_def Let_def eval_defs)
  from bookmark_never_moves_back [OF run] run show ?thesis
    by (simp add: demo_stream_def demo_state_def)
qed

section \<open>The contacts sync against a scripted transport\<close>

lemma contacts_row_with_updated_at:
  fixes start :: "'t::ord"
  assumes "updated_at_of env row = Some t"
    and "t \<ge> start \<Longrightarrow> transform_contact env row = Inr r"
  shows "contacts_row env sid start row mx w =
           Some (Inr (if t > mx then t else mx),
                 w\<lparr>out := out w @ (if t \<ge> start then [RecordMsg sid r] else [])\<rparr>)"
proof -
  from assms(1) obtain kvs v s where row: "row = JObj kvs" "map_of kvs ''updated_at'' = Some v"
    "transform_datetime env v = Inr s" "strptime_with_tz env s = Inr t"
    by (auto simp: updated_at_of_def and_then_def split: json.splits option.splits sum.splits)
  from row(2) have "(''updated_at'', v) \<in> set kvs" by (rule map_of_SomeD)
  then have "''updated_at'' \<in> fst ` set kvs" by force
  with row assms(2) show ?thesis
    by (simp add: contacts_row_def and_then_def emit_def)
qed

lemma run_rows_contacts:
  fixes T0 :: "'t::linorder"
  shows "run_rows (\<lambda>row mx. (if tm row > mx then tm row else mx,
                        if tm row \<ge> T0 then [RecordMsg sid (tr row)] else [])) rows acc =
           (Max (insert acc (tm ` set rows)),
            map (\<lambda>row. RecordMsg sid (tr row)) (filter (\<lambda>row. tm row \<ge> T0) rows))"
proof (induction rows arbitrary: acc)
  case Nil
  then show ?case by simp
next
  case (Cons row rows)
  have "Max (insert (if acc < tm row then tm row else acc) (tm ` set rows)) =
        Max (insert acc (insert (tm row) (tm ` set rows)))"
    by (cases "tm ` set rows = {}") (auto simp: max_def)
  with Cons show ?case by simp
qed

text \<open>
  Claim C1. For the contacts sync with watermark \<open>T0\<close> and every sequence of records
  that each carry an \<open>updated_at\<close> value, served in pages: exactly the records whose
  \<open>updated_at\<close> is greater than or equal to \<open>T0\<close> are emitted, in their order, and
  the bookmark persisted at the end is the string form of the maximum of \<open>T0\<close> and the
  \<open>updated_at\<close> of all records, emitted or not.
\<close>

theorem contacts_sync_emits_from_watermark:
  fixes env :: "((exn + response) list, 't::linorder) env"
  assumes "send env = script_send"
    and "tap_stream_id strm = ''contacts''"
    and "strptime_with_tz env (get_start env STATE ''contacts'' ''updated_at'') = Inr T0"
    and "\<forall>d \<in> set fulls. is_page ''contacts'' d \<and> PER_PAGE \<le> length (page_rows ''contacts'' d) \<and>
           string_token d"
    and "is_page ''contacts'' final"
    and "length (page_rows ''contacts'' final) < PER_PAGE"
    and "net w = map ok_page (fulls @ [final]) @ rest"
    and "rows = concat (map (page_rows ''contacts'') (fulls @ [final]))"
    and "\<forall>row \<in> set rows. updated_at_of env row = Some (tm row)"
    and "\<forall>row \<in> set rows. tm row \<ge> T0 \<longrightarrow> transform_contact env row = Inr (tr row)"
    and "strftime env T0 = Inr logged"
    and "strftime env (Max (insert T0 (tm ` set rows))) = Inr bookmark"
  shows "sync_contacts env STATE strm w =
           Some (Inr (write_bookmark STATE ''contacts'' ''updated_at'' (JStr bookmark)),
                 w\<lparr>net := rest,
                   out := out w @
                     [SchemaMsg ''contacts'' (schema strm) (md_table_key_properties strm)] @
                     map (\<lambda>row. RecordMsg ''contacts'' (tr row)) (filter (\<lambda>row. tm row \<ge> T0) rows) @
                     [StateMsg (write_bookmark STATE ''contacts'' ''updated_at''
                                 (JStr bookmark))]\<rparr>)"
proof -
  let ?u = "''https://api2.autopilothq.com/v1/contacts''"
  let ?w0 = "emit (SchemaMsg ''contacts'' (schema strm) (md_table_key_properties strm)) w"
  let ?g = "\<lambda>row mx. (if tm row > mx then tm row else mx,
                      if tm row \<ge> T0 then [RecordMsg ''contacts'' (tr row)] else [])"
  have u: "get_url env ''contacts'' [] = Inr ?u"
    by (simp add: get_url_def ENDPOINTS_def BASE_URL_def and_then_def)
  have src: "parse_source_from_url ?u = Inr ''contacts''"
    by (simp add: parse_source_from_url_def BASE_URL_def is_word_char_def)
  have key: "parse_key_from_source ''contacts'' = ''contacts''"
    by (simp add: parse_key_from_source_def)
  have body: "contacts_row env ''contacts'' T0 row a w' =
                Some (Inr (fst (?g row a)), w'\<lparr>out := out w' @ snd (?g row a)\<rparr>)"
    if "row \<in> set (concat (map (page_rows ''contacts'') (fulls @ [final])))" for row a w'
    using that assms(8,9,10)
    by (subst contacts_row_with_updated_at [where t = "tm row" and r = "tr row"]) auto
  have fulls: "is_page ''contacts'' d \<and> PER_PAGE \<le> length (page_rows ''contacts'' d) \<and>
           (contains_str ''contact'' ''contacts'' \<longrightarrow> string_token d)" if "d \<in> set fulls" for d
    using that assms(4) by simp
  have net: "net ?w0 = map ok_page (fulls @ [final]) @ rest"
    using assms(7) by (simp add: emit_def)
  have loop: "gen_request_loop env ?u ''contacts'' ''contacts'' (contacts_row env ''contacts'' T0)
                Map.empty T0 ?w0 =
          Some (Inr (fst (run_rows ?g rows T0)),
                ?w0\<lparr>net := rest, out := out ?w0 @ snd (run_rows ?g rows T0)\<rparr>)"
    unfolding assms(8)
    by (rule gen_request_loop_script [OF assms(1) src body fulls assms(5,6) net]) simp_all
  have "gen_request env ?u Map.empty (contacts_row env ''contacts'' T0) T0 ?w0 =
          Some (Inr (Max (insert T0 (tm ` set rows))),
                ?w0\<lparr>net := rest,
                    out := out ?w0 @
                      map (\<lambda>row. RecordMsg ''contacts'' (tr row)) (filter (\<lambda>row. tm row \<ge> T0) rows)\<rparr>)"
    using loop by (simp add: gen_request_def src key run_rows_contacts)
  then show ?thesis
    using assms(2,3,11,12) u by (simp add: sync_contacts_def Let_def emit_def and_then_def)
qed

lemma transform_contact_demo_contact: "transform_contact env (demo_contact t) = Inr (demo_contact t)"
  by (simp add: transform_contact_def boolean_props_def timestamp_props_def demo_contact_def
        and_then_def)

lemma updated_at_of_demo_contact: "updated_at_of demo_env (demo_contact 9) = Some 9"
  "updated_at_of demo_env (demo_contact 10) = Some 10"
  "updated_at_of demo_env (demo_contact 15) = Some 15"
  "updated_at_of demo_env (demo_contact 12) = Some 12"
  "updated_at_of demo_env (demo_contact 13) = Some 13"
  by (simp_all add: updated_at_of_def demo_contact_def demo_env_def demo_transform_datetime_def
        demo_strptime_def show_int_def read_int_def and_then_def)

theorem contacts_sync_emits_from_watermark_witness:
  "sync_contacts demo_env state0 (demo_stream ''contacts'') (world0 [ok_page demo_contacts_page]) =
     Some (Inr (write_bookmark state0 ''contacts'' ''updated_at'' (JStr ''15'')),
           \<lparr>net = [], sleeps = [],
            out = [SchemaMsg ''contacts'' (JObj []) (JArr []),
                   RecordMsg ''contacts'' (demo_contact 10),
                   RecordMsg ''contacts'' (demo_contact 15),
                   RecordMsg ''contacts'' (demo_contact 12),
                   StateMsg (write_bookmark state0 ''contacts'' ''updated_at'' (JStr ''15''))]\<rparr>)"
proof -
  let ?rows = "[demo_contact 9, demo_contact 10, demo_contact 15, demo_contact 12]"
  have send: "send demo_env = script_send" by (simp add: demo_env_def)
  have sid: "tap_stream_id (demo_stream ''contacts'') = ''contacts''" by (simp add: demo_stream_def)
  have start: "strptime_with_tz demo_env (get_start demo_env state0 ''contacts'' ''updated_at'') =
                 Inr 10"
    by (simp add: get_start_def get_bookmark_def state0_def demo_env_def demo_config_def
          demo_strptime_def read_int_def)
  have fulls: "\<forall>d \<in> set []. is_page ''contacts'' d \<and>
                 PER_PAGE \<le> length (page_rows ''contacts'' d) \<and> string_token d"
    by simp
  have final: "is_page ''contacts'' demo_contacts_page"
    "length (page_rows ''contacts'' demo_contacts_page) < PER_PAGE"
    by (simp_all add: is_page_def page_rows_def demo_contacts_page_def demo_page_def PER_PAGE_def)
  have net: "net (world0 [ok_page demo_contacts_page]) = map ok_page ([] @ [demo_contacts_page]) @ []"
    by (simp add: world0_def)
  have rows: "?rows = concat (map (page_rows ''contacts'') ([] @ [demo_contacts_page]))"
    by (simp add: page_rows_def demo_contacts_page_def demo_page_def)
  have times: "\<forall>row \<in> set ?rows. updated_at_of demo_env row = Some (demo_updated_at row)"
    by (simp add: updated_at_of_demo_contact) (simp add: demo_updated_at_def demo_contact_def)
  have transformed: "\<forall>row \<in> set ?rows. demo_updated_at row \<ge> 10 \<longrightarrow>
                       transform_contact demo_env row = Inr (id row)"
    by (simp add: transform_contact_demo_contact)
  have tm: "demo_updated_at (demo_contact t) = t" for t
    by (simp add: demo_updated_at_def demo_contact_def)
  have logged: "strftime demo_env 10 = Inr ''10''"
    by (simp add: demo_env_def show_int_def)
  have fmt: "strftime demo_env (Max (insert 10 (demo_updated_at ` set ?rows))) = Inr ''15''"
    by (simp add: tm demo_env_def show_int_def)
  from contacts_sync_emits_from_watermark
         [OF send sid start fulls final net rows times transformed logged fmt]
  show ?thesis
    by (simp add: tm demo_stream_def world0_def)
qed

end
